theory Spec2Isabelle
  imports Complex_Main "HOL-Library.Product_Lexorder" "HOL-Library.Sublist"
begin

section \<open>Strings\<close>

text \<open>
  A Python \<^verbatim>\<open>str\<close> is a sequence of Unicode code points and \<^verbatim>\<open>len\<close> counts code points,
  so a string is a list of code points here. \<open>asc\<close> reads an ASCII literal.
\<close>

type_synonym pystr = "nat list"

definition asc :: "string \<Rightarrow> pystr" where
  "asc s = map of_char s"

text \<open>
  \<^verbatim>\<open>str.lower\<close> and the regular expression class \<^verbatim>\<open>\w\<close> read the Unicode character
  database. On ASCII both are written out below; beyond ASCII the database is a parameter:
  \<open>lower_tbl\<close> gives the lowercase mapping of a code point (the empty list when it has
  none) and \<open>alnum_tbl\<close> says whether it is alphanumeric. The context rule for the Greek
  final sigma is per string, not per code point, and is not covered by the table.
\<close>

record unicode =
  lower_tbl :: "nat \<Rightarrow> nat list"
  alnum_tbl :: "nat \<Rightarrow> bool"

definition lower_cp :: "unicode \<Rightarrow> nat \<Rightarrow> pystr" where
  "lower_cp U c =
     (if c < 128 then (if 65 \<le> c \<and> c \<le> 90 then [c + 32] else [c])
      else (case lower_tbl U c of [] \<Rightarrow> [c] | l # ls \<Rightarrow> l # ls))"

definition str_lower :: "unicode \<Rightarrow> pystr \<Rightarrow> pystr" where
  "str_lower U s = concat (map (lower_cp U) s)"

definition isalnum :: "unicode \<Rightarrow> nat \<Rightarrow> bool" where
  "isalnum U c =
     (if c < 128 then (48 \<le> c \<and> c \<le> 57) \<or> (65 \<le> c \<and> c \<le> 90) \<or> (97 \<le> c \<and> c \<le> 122)
      else alnum_tbl U c)"

text \<open>\<^verbatim>\<open>\w\<close>: an alphanumeric code point or the underscore.\<close>

definition word_char :: "unicode \<Rightarrow> nat \<Rightarrow> bool" where
  "word_char U c = (isalnum U c \<or> c = 95)"

text \<open>The tables with no entry beyond ASCII.\<close>

definition ascii_only :: unicode where
  "ascii_only = \<lparr>lower_tbl = (\<lambda>c. []), alnum_tbl = (\<lambda>c. False)\<rparr>"

text \<open>\<^verbatim>\<open>x in y\<close> on strings: \<open>x\<close> occurs in \<open>y\<close> as a contiguous substring.\<close>

fun startswith :: "'a list \<Rightarrow> 'a list \<Rightarrow> bool" where
  "startswith ys [] = True"
| "startswith [] (x # xs) = False"
| "startswith (y # ys) (x # xs) = (y = x \<and> startswith ys xs)"

fun str_in :: "'a list \<Rightarrow> 'a list \<Rightarrow> bool" where
  "str_in x [] = (x = [])"
| "str_in x (c # cs) = (startswith (c # cs) x \<or> str_in x cs)"

section \<open>Knowledge chunks\<close>

text \<open>
  A chunk is a dictionary read from JSON; the code reads the keys \<^verbatim>\<open>chunk\<close>, \<^verbatim>\<open>subtopic\<close>
  and \<^verbatim>\<open>chapter\<close>, each of which may be missing (\<open>None\<close>) and otherwise holds a string.
\<close>

record knowledge_chunk =
  key_chunk :: "pystr option"
  key_subtopic :: "pystr option"
  key_chapter :: "pystr option"

text \<open>\<^verbatim>\<open>d.get(key, '')\<close>\<close>

definition get_str :: "pystr option \<Rightarrow> pystr" where
  "get_str v = (case v of None \<Rightarrow> [] | Some s \<Rightarrow> s)"

text \<open>The truth value of \<^verbatim>\<open>d.get(key)\<close>: a missing key gives \<^verbatim>\<open>None\<close>, and the empty string is false.\<close>

definition truthy :: "pystr option \<Rightarrow> bool" where
  "truthy v = (case v of None \<Rightarrow> False | Some s \<Rightarrow> s \<noteq> [])"

subsection \<open>The built-in corpus of \<^verbatim>\<open>_create_sample_knowledge_base\<close>\<close>

definition sample_nature_of_light :: knowledge_chunk where
  "sample_nature_of_light = \<lparr>
     key_chunk = Some (asc ''Light is a form of energy which enables us to see objects. We see objects when light emitted or reflected by them reaches our eyes. Light travels in straight lines. This can be observed from the fact that a small source of light casts sharp shadows of opaque objects. The straight-line path of light is called a ray of light.''),
     key_subtopic = Some (asc ''Nature of Light''),
     key_chapter = Some (asc ''Light - Reflection and Refraction'')\<rparr>"

definition sample_reflection_of_light :: knowledge_chunk where
  "sample_reflection_of_light = \<lparr>
     key_chunk = Some (asc ''When light falls on a surface, it can be reflected, absorbed, or transmitted. The phenomenon of bouncing back of light rays from a surface is called reflection. Laws of reflection: (1) The incident ray, reflected ray and normal all lie in the same plane. (2) The angle of incidence is equal to the angle of reflection ('' @ [8736] @ asc ''i = '' @ [8736] @ asc ''r).''),
     key_subtopic = Some (asc ''Reflection of Light''),
     key_chapter = Some (asc ''Light - Reflection and Refraction'')\<rparr>"

definition sample_spherical_mirrors :: knowledge_chunk where
  "sample_spherical_mirrors = \<lparr>
     key_chunk = Some (asc ''A spherical mirror is a mirror whose reflecting surface is part of a sphere. There are two types: Concave mirror (converging mirror) - curves inward, can form real and virtual images. Convex mirror (diverging mirror) - curves outward, always forms virtual, diminished images. The focal length f = R/2, where R is radius of curvature.''),
     key_subtopic = Some (asc ''Spherical Mirrors''),
     key_chapter = Some (asc ''Light - Reflection and Refraction'')\<rparr>"

definition sample_mirror_formula :: knowledge_chunk where
  "sample_mirror_formula = \<lparr>
     key_chunk = Some (asc ''Mirror formula: 1/v + 1/u = 1/f, where v = image distance, u = object distance, f = focal length. Magnification m = -v/u = height of image/height of object. For concave mirrors, focal length is positive; for convex mirrors, focal length is negative.''),
     key_subtopic = Some (asc ''Mirror Formula''),
     key_chapter = Some (asc ''Light - Reflection and Refraction'')\<rparr>"

definition sample_refraction_of_light :: knowledge_chunk where
  "sample_refraction_of_light = \<lparr>
     key_chunk = Some (asc ''Refraction is the bending of light when it travels from one transparent medium to another. This happens due to change in speed of light in different media. Laws of refraction: (1) Incident ray, refracted ray and normal lie in the same plane. (2) Snell's law: n'' @ [8321] @ asc ''sin('' @ [952, 8321] @ asc '') = n'' @ [8322] @ asc ''sin('' @ [952, 8322] @ asc ''), where n is refractive index.''),
     key_subtopic = Some (asc ''Refraction of Light''),
     key_chapter = Some (asc ''Light - Reflection and Refraction'')\<rparr>"

definition sample_lenses :: knowledge_chunk where
  "sample_lenses = \<lparr>
     key_chunk = Some (asc ''A lens is a transparent object with at least one curved surface that can converge or diverge light rays. Convex lens (converging lens) - thicker at center, focal length positive, can form real and virtual images. Concave lens (diverging lens) - thinner at center, focal length negative, always forms virtual images.''),
     key_subtopic = Some (asc ''Lenses''),
     key_chapter = Some (asc ''Light - Reflection and Refraction'')\<rparr>"

definition sample_lens_formula_and_human_eye :: knowledge_chunk where
  "sample_lens_formula_and_human_eye = \<lparr>
     key_chunk = Some (asc ''Lens formula: 1/v - 1/u = 1/f. Power of lens P = 1/f (in meters), measured in diopters (D). For combination of lenses: P = P'' @ [8321] @ asc '' + P'' @ [8322] @ asc '' + ... The human eye works like a camera with a convex lens (crystalline lens) forming real, inverted images on retina.''),
     key_subtopic = Some (asc ''Lens Formula and Human Eye''),
     key_chapter = Some (asc ''Light - Reflection and Refraction'')\<rparr>"

definition sample_electric_current :: knowledge_chunk where
  "sample_electric_current = \<lparr>
     key_chunk = Some (asc ''Electric current is the flow of electric charge through a conductor. SI unit is ampere (A). One ampere = 1 coulomb/second. Current flows from positive terminal to negative terminal (conventional current direction). In metals, current is due to flow of free electrons (opposite to conventional current).''),
     key_subtopic = Some (asc ''Electric Current''),
     key_chapter = Some (asc ''Electricity'')\<rparr>"

definition sample_electric_potential :: knowledge_chunk where
  "sample_electric_potential = \<lparr>
     key_chunk = Some (asc ''Electric potential difference (voltage) is the work done per unit charge to move charge between two points. V = W/Q. SI unit is volt (V). One volt = 1 joule/coulomb. Potential difference drives current through a circuit. Higher voltage means more energy per unit charge.''),
     key_subtopic = Some (asc ''Electric Potential''),
     key_chapter = Some (asc ''Electricity'')\<rparr>"

definition sample_ohms_law :: knowledge_chunk where
  "sample_ohms_law = \<lparr>
     key_chunk = Some (asc ''Ohm's Law states that current through a conductor is directly proportional to potential difference across it, provided temperature remains constant. V = I '' @ [215] @ asc '' R, where V = voltage, I = current, R = resistance. Resistance opposes flow of current. SI unit of resistance is ohm ('' @ [937] @ asc '').''),
     key_subtopic = Some (asc ''Ohm's Law''),
     key_chapter = Some (asc ''Electricity'')\<rparr>"

definition sample_resistance :: knowledge_chunk where
  "sample_resistance = \<lparr>
     key_chunk = Some (asc ''Factors affecting resistance: (1) Length - R '' @ [8733] @ asc '' l (2) Area of cross-section - R '' @ [8733] @ asc '' 1/A (3) Material - depends on resistivity '' @ [961] @ asc '' (4) Temperature - for conductors, R increases with temperature. Formula: R = '' @ [961] @ asc ''l/A. Resistivity is a material property.''),
     key_subtopic = Some (asc ''Resistance''),
     key_chapter = Some (asc ''Electricity'')\<rparr>"

definition sample_resistor_combinations :: knowledge_chunk where
  "sample_resistor_combinations = \<lparr>
     key_chunk = Some (asc ''Series combination: Resistances add up, Rs = R'' @ [8321] @ asc '' + R'' @ [8322] @ asc '' + R'' @ [8323] @ asc ''... Current same through all resistors. Parallel combination: 1/Rp = 1/R'' @ [8321] @ asc '' + 1/R'' @ [8322] @ asc '' + 1/R'' @ [8323] @ asc ''... Voltage same across all resistors. Parallel combination gives less total resistance than individual resistances.''),
     key_subtopic = Some (asc ''Resistor Combinations''),
     key_chapter = Some (asc ''Electricity'')\<rparr>"

definition sample_electric_power :: knowledge_chunk where
  "sample_electric_power = \<lparr>
     key_chunk = Some (asc ''Electric power is the rate of consumption of electric energy. P = VI = I'' @ [178] @ asc ''R = V'' @ [178] @ asc ''/R. SI unit is watt (W). Electric energy consumed = P '' @ [215] @ asc '' t = VIt. Commercial unit of energy is kilowatt-hour (kWh). 1 kWh = 3.6 '' @ [215] @ asc '' 10'' @ [8310] @ asc '' J. Electric bill is based on energy consumed.''),
     key_subtopic = Some (asc ''Electric Power''),
     key_chapter = Some (asc ''Electricity'')\<rparr>"

definition sample_magnetic_field :: knowledge_chunk where
  "sample_magnetic_field = \<lparr>
     key_chunk = Some (asc ''A magnetic field exists around a magnet and current-carrying conductor. Magnetic field lines are imaginary lines showing direction of magnetic field. They emerge from North pole and enter South pole. Field lines never intersect. Uniform field has parallel, equally spaced lines.''),
     key_subtopic = Some (asc ''Magnetic Field''),
     key_chapter = Some (asc ''Magnetic Effects of Electric Current'')\<rparr>"

definition sample_magnetic_field_due_to_current :: knowledge_chunk where
  "sample_magnetic_field_due_to_current = \<lparr>
     key_chunk = Some (asc ''Current-carrying conductor produces magnetic field. Direction given by Right Hand Thumb Rule: Thumb shows current direction, fingers curl in direction of magnetic field. For circular loop: field lines are circular near wire, straight at center. For solenoid: behaves like bar magnet.''),
     key_subtopic = Some (asc ''Magnetic Field due to Current''),
     key_chapter = Some (asc ''Magnetic Effects of Electric Current'')\<rparr>"

definition sample_force_on_conductor :: knowledge_chunk where
  "sample_force_on_conductor = \<lparr>
     key_chunk = Some (asc ''Force on current-carrying conductor in magnetic field: F = BIl sin '' @ [952] @ asc '', where B = magnetic field, I = current, l = length, '' @ [952] @ asc '' = angle. Direction by Fleming's Left Hand Rule: Thumb = Force, Index finger = Field, Middle finger = Current. Used in electric motors.''),
     key_subtopic = Some (asc ''Force on Current-carrying Conductor''),
     key_chapter = Some (asc ''Magnetic Effects of Electric Current'')\<rparr>"

definition sample_electromagnetic_induction :: knowledge_chunk where
  "sample_electromagnetic_induction = \<lparr>
     key_chunk = Some (asc ''Electromagnetic induction: When magnetic flux through a conductor changes, EMF is induced. Faraday's laws: (1) Changing magnetic flux induces EMF. (2) Induced EMF = -d'' @ [934] @ asc ''/dt. Fleming's Right Hand Rule gives direction of induced current. Used in generators, transformers.''),
     key_subtopic = Some (asc ''Electromagnetic Induction''),
     key_chapter = Some (asc ''Magnetic Effects of Electric Current'')\<rparr>"

definition sample_chunks :: "knowledge_chunk list" where
  "sample_chunks =
    [sample_nature_of_light,
     sample_reflection_of_light,
     sample_spherical_mirrors,
     sample_mirror_formula,
     sample_refraction_of_light,
     sample_lenses,
     sample_lens_formula_and_human_eye,
     sample_electric_current,
     sample_electric_potential,
     sample_ohms_law,
     sample_resistance,
     sample_resistor_combinations,
     sample_electric_power,
     sample_magnetic_field,
     sample_magnetic_field_due_to_current,
     sample_force_on_conductor,
     sample_electromagnetic_induction]"

section \<open>Topics\<close>

text \<open>
  \<^verbatim>\<open>get_chapter_topics\<close>. Without a chapter (\<^verbatim>\<open>None\<close>, or the empty string, which is false as
  well) the result is \<^verbatim>\<open>list(set(...))\<close>: a list without duplicates whose order is the
  iteration order of a set of strings, which Python leaves unspecified. That result is
  modelled by the set of its elements.
\<close>

datatype topics = AnyOrder "pystr set" | InOrder "pystr list"

definition topics_step :: "unicode \<Rightarrow> pystr \<Rightarrow> knowledge_chunk \<Rightarrow> pystr list \<Rightarrow> pystr list" where
  "topics_step U ch c topics =
     (if str_in (str_lower U ch) (str_lower U (get_str (key_chapter c))) then
        (let topic = get_str (key_subtopic c)
         in if topic \<noteq> [] \<and> topic \<notin> set topics then topics @ [topic] else topics)
      else topics)"

definition get_chapter_topics ::
    "unicode \<Rightarrow> knowledge_chunk list \<Rightarrow> pystr option \<Rightarrow> topics" where
  "get_chapter_topics U knowledge_chunks arg =
     (case arg of
        None \<Rightarrow> AnyOrder (set [get_str (key_subtopic c). c \<leftarrow> knowledge_chunks, truthy (key_subtopic c)])
      | Some ch \<Rightarrow>
          if ch = [] then
            AnyOrder (set [get_str (key_subtopic c). c \<leftarrow> knowledge_chunks, truthy (key_subtopic c)])
          else InOrder (fold (topics_step U ch) knowledge_chunks []))"


section \<open>Floating point\<close>

text \<open>
  A Python \<^verbatim>\<open>float\<close> is an IEEE 754 binary64 number. The finite ones are rationals, and every
  operation returns the exact result rounded to the nearest number with a 53-bit significand,
  ties to even. \<open>fl\<close> is that rounding, with the exponent range left unbounded: the values
  computed here lie between 0 and 5 and are either 0 or at least the inverse of a string
  length, far from overflow and underflow.
\<close>

fun bits :: "nat \<Rightarrow> nat" where
  "bits n = (if n = 0 then 0 else Suc (bits (n div 2)))"

declare bits.simps [simp del]

definition pow2 :: "int \<Rightarrow> rat" where
  "pow2 e = (if 0 \<le> e then 2 ^ nat e else 1 / 2 ^ nat (- e))"

text \<open>The exponent of a positive rational: the greatest \<open>e\<close> with \<open>2 ^ e \<le> x\<close>.\<close>

definition ilog2 :: "rat \<Rightarrow> int" where
  "ilog2 x = (if 1 \<le> x then int (bits (nat \<lfloor>x\<rfloor>)) - 1
              else - int (bits (nat (\<lceil>1 / x\<rceil> - 1))))"

text \<open>Round a non-negative rational to the nearest integer, ties to even.\<close>

definition rne :: "rat \<Rightarrow> int" where
  "rne y = (let f = \<lfloor>y\<rfloor>; r = y - of_int f
            in if r < 1 / 2 then f else if 1 / 2 < r then f + 1
               else if even f then f else f + 1)"

definition fl :: "rat \<Rightarrow> rat" where
  "fl x = (if x = 0 then 0
           else (let u = pow2 (ilog2 \<bar>x\<bar> - 52)
                 in sgn x * of_int (rne (\<bar>x\<bar> / u)) * u))"

definition fadd :: "rat \<Rightarrow> rat \<Rightarrow> rat" where
  "fadd x y = fl (x + y)"

definition fmul :: "rat \<Rightarrow> rat \<Rightarrow> rat" where
  "fmul x y = fl (x * y)"

definition fdiv :: "rat \<Rightarrow> rat \<Rightarrow> rat" where
  "fdiv x y = fl (x / y)"

text \<open>\<^verbatim>\<open>float(n)\<close> for an integer, as the mixed operations \<^verbatim>\<open>2.0 * matches / length\<close> convert.\<close>

definition float_of_nat :: "nat \<Rightarrow> rat" where
  "float_of_nat n = fl (of_nat n)"

section \<open>\<^verbatim>\<open>difflib.SequenceMatcher\<close>\<close>

text \<open>
  The standard library's matcher, as \<^verbatim>\<open>SequenceMatcher(None, a, b).ratio()\<close> runs it: no junk
  predicate, and the automatic junk heuristic on. \<^verbatim>\<open>__chain_b\<close> maps each element of \<open>b\<close> to
  the ascending list of its positions, then drops the elements that occur more than
  \<^verbatim>\<open>n // 100 + 1\<close> times when \<open>b\<close> has at least 200 elements.
\<close>

definition indices_of :: "'a \<Rightarrow> 'a list \<Rightarrow> nat list" where
  "indices_of elt b = [j \<leftarrow> [0..<length b]. b ! j = elt]"

definition popular :: "'a list \<Rightarrow> 'a \<Rightarrow> bool" where
  "popular b elt = (200 \<le> length b \<and> length b div 100 + 1 < length (indices_of elt b))"

text \<open>\<^verbatim>\<open>b2j.get(elt, [])\<close>\<close>

definition b2j_get :: "'a list \<Rightarrow> 'a \<Rightarrow> nat list" where
  "b2j_get b elt = (if popular b elt then [] else indices_of elt b)"

text \<open>\<^verbatim>\<open>bjunk\<close> is empty without a junk predicate.\<close>

definition isbjunk :: "'a \<Rightarrow> bool" where
  "isbjunk elt = False"

text \<open>\<^verbatim>\<open>j2len.get(j-1, 0)\<close>: no key is negative, so \<open>j = 0\<close> reads the default.\<close>

definition j2len_get :: "(nat \<rightharpoonup> nat) \<Rightarrow> nat \<Rightarrow> nat" where
  "j2len_get j2len j =
     (if j = 0 then 0 else (case j2len (j - 1) of None \<Rightarrow> 0 | Some k \<Rightarrow> k))"

text \<open>
  The loop over \<^verbatim>\<open>b2j.get(a[i], nothing)\<close> in \<^verbatim>\<open>find_longest_match\<close>, with its
  \<^verbatim>\<open>continue\<close> and \<^verbatim>\<open>break\<close>. The state is \<^verbatim>\<open>(newj2len, besti, bestj, bestsize)\<close>.
  \<^verbatim>\<open>i-k+1\<close> is written \<open>i + 1 - k\<close>: \<open>k\<close> never exceeds \<open>i + 1\<close> (lemma \<open>outer_inv\<close> below).
\<close>

type_synonym flm_state = "(nat \<rightharpoonup> nat) \<times> nat \<times> nat \<times> nat"

fun inner_loop :: "nat \<Rightarrow> nat \<Rightarrow> nat \<Rightarrow> (nat \<rightharpoonup> nat) \<Rightarrow> nat list \<Rightarrow> flm_state \<Rightarrow> flm_state" where
  "inner_loop blo bhi i j2len [] st = st"
| "inner_loop blo bhi i j2len (j # js) (newj2len, besti, bestj, bestsize) =
     (if j < blo then inner_loop blo bhi i j2len js (newj2len, besti, bestj, bestsize)
      else if bhi \<le> j then (newj2len, besti, bestj, bestsize)
      else (let k = j2len_get j2len j + 1;
                newj2len' = newj2len(j \<mapsto> k)
            in if bestsize < k
               then inner_loop blo bhi i j2len js (newj2len', i + 1 - k, j + 1 - k, k)
               else inner_loop blo bhi i j2len js (newj2len', besti, bestj, bestsize)))"

definition outer_step :: "'a list \<Rightarrow> 'a list \<Rightarrow> nat \<Rightarrow> nat \<Rightarrow> nat \<Rightarrow> flm_state \<Rightarrow> flm_state" where
  "outer_step a b blo bhi i st =
     (case st of (j2len, besti, bestj, bestsize) \<Rightarrow>
        inner_loop blo bhi i j2len (b2j_get b (a ! i)) (Map.empty, besti, bestj, bestsize))"

text \<open>The four \<^verbatim>\<open>while\<close> loops that extend the block to the left and to the right.\<close>

function ext_left ::
    "('a \<Rightarrow> bool) \<Rightarrow> 'a list \<Rightarrow> 'a list \<Rightarrow> nat \<Rightarrow> nat \<Rightarrow> nat \<times> nat \<times> nat \<Rightarrow> nat \<times> nat \<times> nat" where
  "ext_left P a b alo blo (besti, bestj, bestsize) =
     (if alo < besti \<and> blo < bestj \<and> P (b ! (bestj - 1)) \<and> a ! (besti - 1) = b ! (bestj - 1)
      then ext_left P a b alo blo (besti - 1, bestj - 1, bestsize + 1)
      else (besti, bestj, bestsize))"
  by pat_completeness auto
termination
  by (relation "measure (\<lambda>(P, a, b, alo, blo, besti, bestj, bestsize). besti)") auto

declare ext_left.simps [simp del]

function ext_right ::
    "('a \<Rightarrow> bool) \<Rightarrow> 'a list \<Rightarrow> 'a list \<Rightarrow> nat \<Rightarrow> nat \<Rightarrow> nat \<times> nat \<times> nat \<Rightarrow> nat \<times> nat \<times> nat" where
  "ext_right P a b ahi bhi (besti, bestj, bestsize) =
     (if besti + bestsize < ahi \<and> bestj + bestsize < bhi \<and> P (b ! (bestj + bestsize))
         \<and> a ! (besti + bestsize) = b ! (bestj + bestsize)
      then ext_right P a b ahi bhi (besti, bestj, bestsize + 1)
      else (besti, bestj, bestsize))"
  by pat_completeness auto
termination
  by (relation "measure (\<lambda>(P, a, b, ahi, bhi, besti, bestj, bestsize). ahi - (besti + bestsize))")
    auto

declare ext_right.simps [simp del]

definition find_longest_match ::
    "'a list \<Rightarrow> 'a list \<Rightarrow> nat \<Rightarrow> nat \<Rightarrow> nat \<Rightarrow> nat \<Rightarrow> nat \<times> nat \<times> nat" where
  "find_longest_match a b alo ahi blo bhi =
     (case fold (outer_step a b blo bhi) [alo..<ahi] (Map.empty, alo, blo, 0) of
        (j2len, best) \<Rightarrow>
          ext_right isbjunk a b ahi bhi
            (ext_left isbjunk a b alo blo
              (ext_right (\<lambda>x. \<not> isbjunk x) a b ahi bhi
                (ext_left (\<lambda>x. \<not> isbjunk x) a b alo blo best))))"

text \<open>
  The work list of \<^verbatim>\<open>get_matching_blocks\<close>: \<^verbatim>\<open>queue.pop()\<close> takes the entry appended last, so
  the head of the list is the end of the Python list.
\<close>

function gmb_loop ::
    "'a list \<Rightarrow> 'a list \<Rightarrow> (nat \<times> nat \<times> nat \<times> nat) list \<Rightarrow> (nat \<times> nat \<times> nat) list
       \<Rightarrow> (nat \<times> nat \<times> nat) list" where
  "gmb_loop a b [] matching_blocks = matching_blocks"
| "gmb_loop a b ((alo, ahi, blo, bhi) # queue) matching_blocks =
     (case find_longest_match a b alo ahi blo bhi of
        (i, j, k) \<Rightarrow>
          if k \<noteq> 0 then
            gmb_loop a b
              ((if i + k < ahi \<and> j + k < bhi then [(i + k, ahi, j + k, bhi)] else [])
                 @ (if alo < i \<and> blo < j then [(alo, i, blo, j)] else []) @ queue)
              (matching_blocks @ [(i, j, k)])
          else gmb_loop a b queue matching_blocks)"
  by pat_completeness auto

text \<open>Adjacent blocks are merged after sorting, and the dummy block closes the list.\<close>

definition collapse_step ::
    "nat \<times> nat \<times> nat \<Rightarrow> nat \<times> nat \<times> nat \<times> (nat \<times> nat \<times> nat) list
       \<Rightarrow> nat \<times> nat \<times> nat \<times> (nat \<times> nat \<times> nat) list" where
  "collapse_step blk st =
     (case (blk, st) of ((i2, j2, k2), (i1, j1, k1, non_adjacent)) \<Rightarrow>
        if i1 + k1 = i2 \<and> j1 + k1 = j2 then (i1, j1, k1 + k2, non_adjacent)
        else (i2, j2, k2, if k1 \<noteq> 0 then non_adjacent @ [(i1, j1, k1)] else non_adjacent))"

definition get_matching_blocks :: "'a list \<Rightarrow> 'a list \<Rightarrow> (nat \<times> nat \<times> nat) list" where
  "get_matching_blocks a b =
     (case fold collapse_step (sort (gmb_loop a b [(0, length a, 0, length b)] [])) (0, 0, 0, []) of
        (i1, j1, k1, non_adjacent) \<Rightarrow>
          (if k1 \<noteq> 0 then non_adjacent @ [(i1, j1, k1)] else non_adjacent)
            @ [(length a, length b, 0)])"

definition calculate_ratio :: "nat \<Rightarrow> nat \<Rightarrow> rat" where
  "calculate_ratio matches len =
     (if len \<noteq> 0 then fdiv (fmul 2 (float_of_nat matches)) (float_of_nat len) else 1)"

definition ratio :: "'a list \<Rightarrow> 'a list \<Rightarrow> rat" where
  "ratio a b =
     calculate_ratio (sum_list (map (\<lambda>(i, j, k). k) (get_matching_blocks a b)))
       (length a + length b)"


section \<open>Relevance score\<close>

definition similarity_score :: "unicode \<Rightarrow> pystr \<Rightarrow> pystr \<Rightarrow> rat" where
  "similarity_score U text1 text2 = ratio (str_lower U text1) (str_lower U text2)"

text \<open>
  \<^verbatim>\<open>re.findall(r'\b\w+\b', s)\<close>: the maximal runs of word characters of \<open>s\<close>, from left to
  right. \<open>runs P s cur\<close> scans \<open>s\<close> with the run \<open>cur\<close> read so far.
\<close>

fun runs :: "(nat \<Rightarrow> bool) \<Rightarrow> pystr \<Rightarrow> pystr \<Rightarrow> pystr list" where
  "runs P [] cur = (if cur = [] then [] else [cur])"
| "runs P (c # cs) cur =
     (if P c then runs P cs (cur @ [c])
      else if cur = [] then runs P cs []
      else cur # runs P cs [])"

definition findall_words :: "unicode \<Rightarrow> pystr \<Rightarrow> pystr list" where
  "findall_words U s = runs (word_char U) s []"

text \<open>One round of the keyword loop: \<^verbatim>\<open>keyword_score += 0.3\<close> when the keyword occurs.\<close>

definition keyword_step :: "pystr \<Rightarrow> pystr \<Rightarrow> pystr \<Rightarrow> pystr \<Rightarrow> rat \<Rightarrow> rat" where
  "keyword_step chunk_text subtopic_l chapter_l keyword keyword_score =
     (if str_in keyword chunk_text \<or> str_in keyword subtopic_l \<or> str_in keyword chapter_l
      then fadd keyword_score (fl (3 / 10)) else keyword_score)"

text \<open>
  The body of the loop of \<^verbatim>\<open>search_relevant_chunks\<close> up to \<^verbatim>\<open>total_score\<close>. The literals
  \<^verbatim>\<open>1.5\<close>, \<^verbatim>\<open>1.2\<close> and \<^verbatim>\<open>0.3\<close> are the floats nearest to these decimals.
\<close>

definition total_score :: "unicode \<Rightarrow> pystr \<Rightarrow> knowledge_chunk \<Rightarrow> rat" where
  "total_score U query_lower c =
     (let chunk_text = str_lower U (get_str (key_chunk c));
          subtopic_l = str_lower U (get_str (key_subtopic c));
          chapter_l = str_lower U (get_str (key_chapter c));
          content_score = similarity_score U query_lower chunk_text;
          subtopic_score = fmul (similarity_score U query_lower subtopic_l) (fl (3 / 2));
          chapter_score = fmul (similarity_score U query_lower chapter_l) (fl (6 / 5));
          keywords = findall_words U query_lower;
          keyword_score = fold (keyword_step chunk_text subtopic_l chapter_l) keywords 0
      in fadd (fadd (fadd content_score subtopic_score) chapter_score) (min keyword_score 1))"

section \<open>Retrieval\<close>

record scored_chunk =
  item_chunk :: knowledge_chunk
  item_score :: rat

definition score_step :: "unicode \<Rightarrow> pystr \<Rightarrow> knowledge_chunk \<Rightarrow> scored_chunk list \<Rightarrow> scored_chunk list" where
  "score_step U query_lower c scored_chunks =
     (let total = total_score U query_lower c
      in if fl (1 / 10) < total
         then scored_chunks @ [\<lparr>item_chunk = c, item_score = total\<rparr>]
         else scored_chunks)"

text \<open>\<^verbatim>\<open>xs[:k]\<close>: a negative \<open>k\<close> counts from the end.\<close>

definition slice_to :: "int \<Rightarrow> 'a list \<Rightarrow> 'a list" where
  "slice_to k xs = (if 0 \<le> k then take (nat k) xs else take (length xs - nat (- k)) xs)"

text \<open>
  \<^verbatim>\<open>sort(key=..., reverse=True)\<close> is a stable sort by descending key: items with equal keys
  keep their order. That is the stable ascending sort by the negated key.
\<close>

definition search_relevant_chunks ::
    "unicode \<Rightarrow> knowledge_chunk list \<Rightarrow> pystr \<Rightarrow> int \<Rightarrow> knowledge_chunk list" where
  "search_relevant_chunks U knowledge_chunks query top_k =
     (if knowledge_chunks = [] then []
      else (let query_lower = str_lower U query;
                scored_chunks = fold (score_step U query_lower) knowledge_chunks [];
                sorted_chunks = sort_key (\<lambda>x. - item_score x) scored_chunks
            in map item_chunk (slice_to top_k sorted_chunks)))"

section \<open>Context assembly\<close>

definition fallback_context :: pystr where
  "fallback_context = asc ''Physics concepts from Class 10 curriculum.''"

text \<open>The f-string of \<^verbatim>\<open>get_context_for_query\<close>; its first character is U+1F4DA.\<close>

definition format_chunk :: "knowledge_chunk \<Rightarrow> pystr" where
  "format_chunk c =
     [128218] @ asc '' **'' @ get_str (key_chapter c) @ asc ''** - '' @ get_str (key_subtopic c)
       @ asc '':'' @ [10] @ get_str (key_chunk c) @ [10]"

text \<open>The loop over the relevant chunks, left at the first block that does not fit.\<close>

fun collect_parts :: "int \<Rightarrow> knowledge_chunk list \<Rightarrow> pystr list \<Rightarrow> nat \<Rightarrow> pystr list" where
  "collect_parts max_context_length [] context_parts current_length = context_parts"
| "collect_parts max_context_length (c # cs) context_parts current_length =
     (let formatted_chunk = format_chunk c
      in if int current_length + int (length formatted_chunk) \<le> max_context_length
         then collect_parts max_context_length cs (context_parts @ [formatted_chunk])
                (current_length + length formatted_chunk)
         else context_parts)"

text \<open>\<^verbatim>\<open>sep.join(parts)\<close>\<close>

fun join :: "pystr \<Rightarrow> pystr list \<Rightarrow> pystr" where
  "join sep [] = []"
| "join sep [p] = p"
| "join sep (p # q # ps) = p @ sep @ join sep (q # ps)"

definition get_context_for_query ::
    "unicode \<Rightarrow> knowledge_chunk list \<Rightarrow> pystr \<Rightarrow> int \<Rightarrow> pystr" where
  "get_context_for_query U knowledge_chunks query max_context_length =
     (let relevant_chunks = search_relevant_chunks U knowledge_chunks query 3
      in if relevant_chunks = [] then fallback_context
         else join [10] (collect_parts max_context_length relevant_chunks [] 0))"


section \<open>Loading the knowledge base\<close>

text \<open>
  \<^verbatim>\<open>load_knowledge_base\<close> talks to the file system and to the \<^verbatim>\<open>json\<close> library. Every call
  that can raise returns a sum, \<open>Inl\<close> the exception. The store is a map from paths to
  documents; \<open>read_fault\<close>, \<open>mkdir_fault\<close> and \<open>write_fault\<close> say which exception, if any,
  opening a file for reading, creating a directory and opening a file for writing raise.
  A directory in the place of the file is a path that exists and whose reading fails.
  Diagnostic output (\<^verbatim>\<open>print\<close>) is left out.
\<close>

datatype exc =
  FileNotFoundError | PermissionError | IsADirectoryError | OSError
  | UnicodeDecodeError | JSONDecodeError | AttributeError













section \<open>The specification's wording\<close>

text \<open>
  The definitions of this section follow the specification, not the code; the theorems
  below compare them with the code.
\<close>

text \<open>The distinct elements of a list, each at its first occurrence.\<close>

fun first_seen :: "'a list \<Rightarrow> 'a list" where
  "first_seen [] = []"
| "first_seen (x # xs) = x # removeAll x (first_seen xs)"



text \<open>``Scores above the relevance floor'': the floor is the float \<^verbatim>\<open>0.1\<close>.\<close>

definition passes :: "unicode \<Rightarrow> pystr \<Rightarrow> knowledge_chunk \<Rightarrow> bool" where
  "passes U query c = (fl (1 / 10) < total_score U (str_lower U query) c)"

text \<open>
  ``Sorts the surviving chunks by score descending, original corpus order among equal
  scores'': the stable sort of the survivors.
\<close>

definition ranked_chunks :: "unicode \<Rightarrow> knowledge_chunk list \<Rightarrow> pystr \<Rightarrow> knowledge_chunk list" where
  "ranked_chunks U kb query =
     sort_key (\<lambda>c. - total_score U (str_lower U query) c) (filter (passes U query) kb)"

text \<open>The included blocks: \<^verbatim>\<open>context_parts\<close> when the loop of \<^verbatim>\<open>get_context_for_query\<close> ends.\<close>

definition context_parts :: "unicode \<Rightarrow> knowledge_chunk list \<Rightarrow> pystr \<Rightarrow> int \<Rightarrow> pystr list" where
  "context_parts U kb query max_context_length =
     collect_parts max_context_length (search_relevant_chunks U kb query 3) [] 0"

text \<open>The ratio of the empty string and \<open>s\<close>.\<close>

definition empty_ratio :: "pystr \<Rightarrow> rat" where
  "empty_ratio s = (if s = [] then 1 else 0)"

text \<open>A chunk with a text and empty labels, for the examples.\<close>

definition probe :: "string \<Rightarrow> knowledge_chunk" where
  "probe s = \<lparr>key_chunk = Some (asc s), key_subtopic = Some [], key_chapter = Some []\<rparr>"

text \<open>``The token appears as a substring of the lowercased chunk text, subtopic, or chapter.''\<close>

definition occurs :: "unicode \<Rightarrow> knowledge_chunk \<Rightarrow> pystr \<Rightarrow> bool" where
  "occurs U c t =
     (str_in t (str_lower U (get_str (key_chunk c)))
      \<or> str_in t (str_lower U (get_str (key_subtopic c)))
      \<or> str_in t (str_lower U (get_str (key_chapter c))))"

text \<open>
  ``Adds 0.3 for each occurrence of a token of the lowercased query that appears'', duplicates
  counted: 0.3 is added as many times as there are such tokens. \<open>P\<close> is the class of characters
  that tokens are made of.
\<close>

definition spec_keyword_score :: "unicode \<Rightarrow> (nat \<Rightarrow> bool) \<Rightarrow> pystr \<Rightarrow> knowledge_chunk \<Rightarrow> rat" where
  "spec_keyword_score U P query c =
     ((\<lambda>s. fadd s (fl (3 / 10))) ^^ length (filter (occurs U c) (runs P (str_lower U query) []))) 0"

text \<open>
  ``ratio(lower(query), lower(chunk.chunk)) + 1.5 * ratio(lower(query), lower(chunk.subtopic))
  + 1.2 * ratio(lower(query), lower(chunk.chapter)) + min(keyword_score, 1.0)''
\<close>

definition spec_score :: "unicode \<Rightarrow> (nat \<Rightarrow> bool) \<Rightarrow> pystr \<Rightarrow> knowledge_chunk \<Rightarrow> rat" where
  "spec_score U P query c =
     fadd (fadd (fadd (ratio (str_lower U query) (str_lower U (get_str (key_chunk c))))
                      (fmul (fl (3 / 2))
                         (ratio (str_lower U query) (str_lower U (get_str (key_subtopic c))))))
                (fmul (fl (6 / 5))
                   (ratio (str_lower U query) (str_lower U (get_str (key_chapter c))))))
          (min (spec_keyword_score U P query c) 1)"

text \<open>
  Lowercasing a lowercased string changes nothing. Python's \<^verbatim>\<open>str.lower\<close> has this property;
  it is asked of the table.
\<close>

definition lower_idempotent :: "unicode \<Rightarrow> bool" where
  "lower_idempotent U = (\<forall>c. str_lower U (lower_cp U c) = lower_cp U c)"



section \<open>The matcher terminates\<close>

text \<open>
  After the rows \<open>alo..<n\<close>, every run length recorded in \<^verbatim>\<open>j2len\<close> fits between \<open>alo\<close> and
  \<open>n\<close>, and so does the best block. This is what makes \<open>i + 1 - k\<close> exact and the work list
  of \<^verbatim>\<open>get_matching_blocks\<close> shrink.
\<close>

definition flm_inv :: "nat \<Rightarrow> nat \<Rightarrow> flm_state \<Rightarrow> bool" where
  "flm_inv alo n st =
     (case st of (m, besti, bestj, bestsize) \<Rightarrow>
        (\<forall>j v. m j = Some v \<longrightarrow> alo + v \<le> n) \<and> alo \<le> besti \<and> besti + bestsize \<le> n)"

lemma j2len_get_le:
  "(\<forall>j v. m j = Some v \<longrightarrow> alo + v \<le> n) \<Longrightarrow> alo \<le> n \<Longrightarrow> alo + j2len_get m j \<le> n"
  by (auto simp: j2len_get_def split: option.splits)

lemma inner_loop_inv:
  assumes "\<forall>j v. j2len j = Some v \<longrightarrow> alo + v \<le> i" "alo \<le> i"
    and "flm_inv alo (Suc i) st"
  shows "flm_inv alo (Suc i) (inner_loop blo bhi i j2len js st)"
  using assms(3)
proof (induction js arbitrary: st)
  case Nil
  then show ?case by simp
next
  case (Cons j js)
  obtain m bi bj bs where st: "st = (m, bi, bj, bs)" by (cases st) auto
  have k: "alo + j2len_get j2len j \<le> i" using j2len_get_le[OF assms(1,2)] .
  have a: "flm_inv alo (Suc i) (m(j \<mapsto> j2len_get j2len j + 1), i + 1 - (j2len_get j2len j + 1), j + 1 - (j2len_get j2len j + 1), j2len_get j2len j + 1)"
    using Cons.prems k unfolding st flm_inv_def by auto
  have b: "flm_inv alo (Suc i) (m(j \<mapsto> j2len_get j2len j + 1), bi, bj, bs)"
    using Cons.prems k unfolding st flm_inv_def by auto
  show ?case unfolding st using Cons.IH[OF a] Cons.IH[OF b] Cons.IH[OF Cons.prems[unfolded st]] Cons.prems[unfolded st]
    by (simp add: Let_def)
qed

lemma outer_step_inv:
  assumes "flm_inv alo i st" "alo \<le> i"
  shows "flm_inv alo (Suc i) (outer_step a b blo bhi i st)"
proof -
  obtain m bi bj bs where st: "st = (m, bi, bj, bs)" by (cases st) auto
  have 1: "\<forall>j v. m j = Some v \<longrightarrow> alo + v \<le> i" using assms(1) by (simp add: st flm_inv_def)
  have 2: "flm_inv alo (Suc i) (Map.empty, bi, bj, bs)" using assms by (simp add: st flm_inv_def)
  show ?thesis unfolding outer_step_def st by (simp add: inner_loop_inv[OF 1 assms(2) 2])
qed

lemma outer_inv:
  "alo \<le> ahi \<Longrightarrow> flm_inv alo ahi (fold (outer_step a b blo bhi) [alo..<ahi] (Map.empty, alo, blo, 0))"
proof (induction ahi)
  case 0
  then show ?case by (simp add: flm_inv_def)
next
  case (Suc ahi)
  show ?case
  proof (cases "alo \<le> ahi")
    case True
    then show ?thesis using Suc.IH by (simp add: outer_step_inv)
  next
    case False
    then have "alo = Suc ahi" using Suc.prems by simp
    then show ?thesis by (simp add: flm_inv_def)
  qed
qed

lemma ext_left_bounds:
  "ext_left P a b alo blo (bi, bj, bs) = (i, j, k) \<Longrightarrow> alo \<le> bi \<Longrightarrow>
     alo \<le> i \<and> i + k = bi + bs"
proof (induction P a b alo blo "(bi, bj, bs)" arbitrary: bi bj bs rule: ext_left.induct)
  case (1 P a b alo blo besti bestj bestsize)
  let ?c = "alo < besti \<and> blo < bestj \<and> P (b ! (bestj - 1)) \<and> a ! (besti - 1) = b ! (bestj - 1)"
  show ?case
  proof (cases ?c)
    case True
    have "ext_left P a b alo blo (besti, bestj, bestsize)
            = ext_left P a b alo blo (besti - 1, bestj - 1, bestsize + 1)"
      by (subst ext_left.simps) (use True in simp)
    then have e: "ext_left P a b alo blo (besti - 1, bestj - 1, bestsize + 1) = (i, j, k)"
      using "1.prems"(1) by simp
    have "alo \<le> besti - 1" using True by linarith
    from "1.hyps"[OF True e this] True show ?thesis by simp
  next
    case False
    have "ext_left P a b alo blo (besti, bestj, bestsize) = (besti, bestj, bestsize)"
      by (subst ext_left.simps) (simp only: False if_False)
    then show ?thesis using "1.prems" by simp
  qed
qed

lemma ext_right_bounds:
  "ext_right P a b ahi bhi (bi, bj, bs) = (i, j, k) \<Longrightarrow>
     i = bi \<and> bs \<le> k \<and> (k \<noteq> bs \<longrightarrow> i + k \<le> ahi)"
proof (induction P a b ahi bhi "(bi, bj, bs)" arbitrary: bi bj bs rule: ext_right.induct)
  case (1 P a b ahi bhi besti bestj bestsize)
  let ?c = "besti + bestsize < ahi \<and> bestj + bestsize < bhi \<and> P (b ! (bestj + bestsize))
         \<and> a ! (besti + bestsize) = b ! (bestj + bestsize)"
  show ?case
  proof (cases ?c)
    case True
    have "ext_right P a b ahi bhi (besti, bestj, bestsize)
            = ext_right P a b ahi bhi (besti, bestj, bestsize + 1)"
      by (subst ext_right.simps) (use True in simp)
    then have e: "ext_right P a b ahi bhi (besti, bestj, bestsize + 1) = (i, j, k)"
      using "1.prems"(1) by simp
    from "1.hyps"[OF True e] True show ?thesis by auto
  next
    case False
    have "ext_right P a b ahi bhi (besti, bestj, bestsize) = (besti, bestj, bestsize)"
      by (subst ext_right.simps) (simp only: False if_False)
    then show ?thesis using "1.prems" by simp
  qed
qed

lemma find_longest_match_bounds:
  assumes "find_longest_match a b alo ahi blo bhi = (i, j, k)"
  shows "alo \<le> i \<and> (k \<noteq> 0 \<longrightarrow> i + k \<le> ahi)"
proof -
  obtain m bi bj bs where f: "fold (outer_step a b blo bhi) [alo..<ahi] (Map.empty, alo, blo, 0) = (m, bi, bj, bs)"
    by (metis prod_cases4)
  have inv: "alo \<le> bi \<and> (alo \<le> ahi \<longrightarrow> bi + bs \<le> ahi) \<and> (\<not> alo \<le> ahi \<longrightarrow> bs = 0 \<and> bi = alo)"
  proof (cases "alo \<le> ahi")
    case True
    then show ?thesis using outer_inv[OF True, of a b blo bhi] by (simp add: f flm_inv_def)
  next
    case False
    then show ?thesis using f by simp
  qed
  obtain i1 j1 k1 where e1: "ext_left (\<lambda>x. \<not> isbjunk x) a b alo blo (bi, bj, bs) = (i1, j1, k1)"
    by (metis prod_cases3)
  obtain i2 j2 k2 where e2: "ext_right (\<lambda>x. \<not> isbjunk x) a b ahi bhi (i1, j1, k1) = (i2, j2, k2)"
    by (metis prod_cases3)
  obtain i3 j3 k3 where e3: "ext_left isbjunk a b alo blo (i2, j2, k2) = (i3, j3, k3)"
    by (metis prod_cases3)
  have e4: "ext_right isbjunk a b ahi bhi (i3, j3, k3) = (i, j, k)"
    using assms by (simp add: find_longest_match_def f e1 e2 e3)
  have b1: "alo \<le> i1 \<and> i1 + k1 = bi + bs" using ext_left_bounds[OF e1] inv by simp
  have b2: "i2 = i1 \<and> k1 \<le> k2 \<and> (k2 \<noteq> k1 \<longrightarrow> i2 + k2 \<le> ahi)" using ext_right_bounds[OF e2] .
  have b3: "alo \<le> i3 \<and> i3 + k3 = i2 + k2" using ext_left_bounds[OF e3] b1 b2 by simp
  have b4: "i = i3 \<and> k3 \<le> k \<and> (k \<noteq> k3 \<longrightarrow> i + k \<le> ahi)" using ext_right_bounds[OF e4] .
  show ?thesis using inv b1 b2 b3 b4 by (cases "k = k3"; cases "k2 = k1"; cases "alo \<le> ahi") auto
qed

text \<open>Each entry taken from the work list is replaced by strictly smaller ones.\<close>

termination gmb_loop
proof (relation "measure (\<lambda>(a, b, queue, mb).
          sum_list (map (\<lambda>(alo, ahi, blo, bhi). 2 * (ahi - alo) + 1) queue))", goal_cases)
  case 1
  then show ?case by simp
next
  case 2
  then show ?case by (auto dest!: find_longest_match_bounds [OF sym])
next
  case 3
  then show ?case by simp
qed

section \<open>Strings: basic facts\<close>

text \<open>\<open>str_in\<close> is the substring relation.\<close>

lemma startswith_iff: "startswith ys xs \<longleftrightarrow> (\<exists>s. ys = xs @ s)"
  by (induction ys xs rule: startswith.induct) auto

lemma str_in_iff: "str_in x y \<longleftrightarrow> (\<exists>p s. y = p @ x @ s)"
proof (induction y)
  case Nil
  then show ?case by simp
next
  case (Cons c cs)
  show ?case
  proof
    assume "str_in x (c # cs)"
    then consider "startswith (c # cs) x" | "str_in x cs" by auto
    then show "\<exists>p s. c # cs = p @ x @ s"
    proof cases
      case 1
      then obtain s where "c # cs = x @ s" by (auto simp: startswith_iff)
      then have "c # cs = [] @ x @ s" by simp
      then show ?thesis by blast
    next
      case 2
      then obtain p s where "cs = p @ x @ s" using Cons.IH by blast
      then have "c # cs = (c # p) @ x @ s" by simp
      then show ?thesis by blast
    qed
  next
    assume "\<exists>p s. c # cs = p @ x @ s"
    then obtain p s where e: "c # cs = p @ x @ s" by blast
    show "str_in x (c # cs)"
    proof (cases p)
      case Nil
      then have "startswith (c # cs) x" using e by (auto simp: startswith_iff)
      then show ?thesis by simp
    next
      case (Cons a p')
      then have "cs = p' @ x @ s" using e by simp
      then have "str_in x cs" using Cons.IH by blast
      then show ?thesis by simp
    qed
  qed
qed


lemma asc_Nil_iff: "asc x = [] \<longleftrightarrow> x = []" "[] = asc x \<longleftrightarrow> x = []"
  by (auto simp: asc_def)

lemmas sample_defs =
  sample_nature_of_light_def
  sample_reflection_of_light_def
  sample_spherical_mirrors_def
  sample_mirror_formula_def
  sample_refraction_of_light_def
  sample_lenses_def
  sample_lens_formula_and_human_eye_def
  sample_electric_current_def
  sample_electric_potential_def
  sample_ohms_law_def
  sample_resistance_def
  sample_resistor_combinations_def
  sample_electric_power_def
  sample_magnetic_field_def
  sample_magnetic_field_due_to_current_def
  sample_force_on_conductor_def
  sample_electromagnetic_induction_def

section \<open>Topics: verification\<close>

lemma set_first_seen: "set (first_seen xs) = set xs"
  by (induction xs) auto

lemma distinct_first_seen: "distinct (first_seen xs)"
  by (induction xs) (auto simp: distinct_removeAll)




lemma truthy_get: "truthy v \<longleftrightarrow> (\<exists>s. v = Some s \<and> s \<noteq> [])"
  by (cases v) (simp_all add: truthy_def)






text \<open>
  C8. Called without a chapter, \<open>get_chapter_topics\<close> returns a collection whose elements are
  exactly the distinct non-empty subtopic values of the loaded chunks, in no particular
  order; on the empty corpus it is empty.
\<close>

theorem get_chapter_topics_all:
  "get_chapter_topics U kb None
     = AnyOrder {s. s \<noteq> [] \<and> (\<exists>c \<in> set kb. key_subtopic c = Some s)}
   \<and> get_chapter_topics U [] None = AnyOrder {}"
proof -
  have "set [get_str (key_subtopic c). c \<leftarrow> kb, truthy (key_subtopic c)]
          = {s. s \<noteq> [] \<and> (\<exists>c \<in> set kb. key_subtopic c = Some s)}"
    by (auto simp: truthy_get get_str_def)
  then show ?thesis by (simp add: get_chapter_topics_def)
qed

theorem get_chapter_topics_all_witness:
  "get_chapter_topics ascii_only
      [\<lparr>key_chunk = Some (asc ''x''), key_subtopic = Some (asc ''a''), key_chapter = None\<rparr>,
       \<lparr>key_chunk = Some (asc ''y''), key_subtopic = Some [], key_chapter = None\<rparr>,
       \<lparr>key_chunk = Some (asc ''z''), key_subtopic = None, key_chapter = None\<rparr>,
       \<lparr>key_chunk = Some (asc ''w''), key_subtopic = Some (asc ''a''), key_chapter = None\<rparr>] None
     = AnyOrder {asc ''a''}"
proof -
  let ?kb = "[\<lparr>key_chunk = Some (asc ''x''), key_subtopic = Some (asc ''a''), key_chapter = None\<rparr>,
       \<lparr>key_chunk = Some (asc ''y''), key_subtopic = Some [], key_chapter = None\<rparr>,
       \<lparr>key_chunk = Some (asc ''z''), key_subtopic = None, key_chapter = None\<rparr>,
       \<lparr>key_chunk = Some (asc ''w''), key_subtopic = Some (asc ''a''), key_chapter = None\<rparr>]"
  have "{s. s \<noteq> [] \<and> (\<exists>c \<in> set ?kb. key_subtopic c = Some s)} = {asc ''a''}"
    by (auto simp: asc_Nil_iff)
  then show ?thesis using get_chapter_topics_all [of ascii_only ?kb] by simp
qed




section \<open>Scores: basic facts\<close>

lemma fl_0: "fl 0 = 0" by (simp add: fl_def)

lemma find_longest_match_Nil: "find_longest_match [] b 0 0 0 n = (0, 0, 0)"
  by (simp add: find_longest_match_def ext_left.simps ext_right.simps)

lemma get_matching_blocks_Nil: "get_matching_blocks [] b = [(0, length b, 0)]"
  by (simp add: get_matching_blocks_def find_longest_match_Nil collapse_step_def)

lemma ratio_Nil: "ratio [] b = (if b = [] then 1 else 0)"
  by (simp add: ratio_def get_matching_blocks_Nil calculate_ratio_def float_of_nat_def
        fmul_def fdiv_def fl_0)

lemma lower_cp_not_Nil: "lower_cp U c \<noteq> []"
  by (simp add: lower_cp_def split: list.split)

lemma str_lower_Nil_iff: "str_lower U s = [] \<longleftrightarrow> s = []"
  by (cases s) (simp_all add: str_lower_def lower_cp_not_Nil)

lemma str_lower_Nil: "str_lower U [] = []"
  by (simp add: str_lower_def)

lemma total_score_empty_query:
  "total_score U (str_lower U []) c =
     fadd (fadd (fadd (empty_ratio (get_str (key_chunk c)))
                      (fmul (empty_ratio (get_str (key_subtopic c))) (fl (3 / 2))))
                (fmul (empty_ratio (get_str (key_chapter c))) (fl (6 / 5)))) 0"
  by (simp add: total_score_def similarity_score_def str_lower_Nil ratio_Nil str_lower_Nil_iff
        findall_words_def empty_ratio_def Let_def)

lemma fl_floor: "fl (1 / 10) < fl (27 / 10)" by code_simp
lemma fl_floor_pos: "\<not> fl (1 / 10) < 0" by code_simp

lemma score_text_only:
  "fadd (fadd (fadd 0 (fmul 1 (fl (3 / 2)))) (fmul 1 (fl (6 / 5)))) 0 = fl (27 / 10)"
  by code_simp

lemma score_all_fields:
  "fadd (fadd (fadd 0 (fmul 0 (fl (3 / 2)))) (fmul 0 (fl (6 / 5)))) 0 = 0"
  by (simp add: fadd_def fmul_def fl_0)

lemma total_score_labels_empty:
  assumes "get_str (key_subtopic c) = []" "get_str (key_chapter c) = []" "get_str (key_chunk c) \<noteq> []"
  shows "total_score U (str_lower U []) c = fl (27 / 10)"
  using assms by (simp add: total_score_empty_query empty_ratio_def score_text_only)

lemma total_score_fields_nonempty:
  assumes "get_str (key_subtopic c) \<noteq> []" "get_str (key_chapter c) \<noteq> []" "get_str (key_chunk c) \<noteq> []"
  shows "total_score U (str_lower U []) c = 0"
  using assms by (simp add: total_score_empty_query empty_ratio_def score_all_fields)

lemma probe_fields: "get_str (key_subtopic (probe s)) = []" "get_str (key_chapter (probe s)) = []"
   "get_str (key_chunk (probe s)) = asc s"
  by (simp_all add: probe_def get_str_def)


section \<open>The score formula\<close>

lemma str_lower_append: "str_lower U (xs @ ys) = str_lower U xs @ str_lower U ys"
  by (simp add: str_lower_def)

lemma str_lower_idem:
  assumes "lower_idempotent U"
  shows "str_lower U (str_lower U s) = str_lower U s"
proof (induction s)
  case Nil
  then show ?case by (simp add: str_lower_def)
next
  case (Cons c s)
  have "str_lower U (c # s) = lower_cp U c @ str_lower U s" by (simp add: str_lower_def)
  then show ?case using assms Cons.IH by (simp add: str_lower_append lower_idempotent_def)
qed

lemma ascii_only_idempotent: "lower_idempotent ascii_only"
  by (auto simp: lower_idempotent_def str_lower_def lower_cp_def ascii_only_def)

lemma fold_count:
  "fold (\<lambda>k acc. if Q k then f acc else acc) kws acc = (f ^^ length (filter Q kws)) acc"
  by (induction kws arbitrary: acc) (simp_all add: funpow_swap1)

lemma keyword_fold:
  "fold (keyword_step t s ch) kws acc
     = ((\<lambda>x. fadd x (fl (3 / 10)))
          ^^ length (filter (\<lambda>k. str_in k t \<or> str_in k s \<or> str_in k ch) kws)) acc"
proof -
  have "keyword_step t s ch
          = (\<lambda>k acc. if str_in k t \<or> str_in k s \<or> str_in k ch
                      then (\<lambda>x. fadd x (fl (3 / 10))) acc else acc)"
    by (simp add: keyword_step_def [abs_def])
  then show ?thesis by (simp only: fold_count)
qed

lemma rne_nonneg: "0 \<le> y \<Longrightarrow> 0 \<le> rne y"
  by (simp add: rne_def Let_def)

lemma pow2_pos: "0 < pow2 e"
  by (simp add: pow2_def)

lemma fl_nonneg: "0 \<le> x \<Longrightarrow> 0 \<le> fl x"
proof -
  assume x: "0 \<le> x"
  show ?thesis
  proof (cases "x = 0")
    case True
    then show ?thesis by (simp add: fl_def)
  next
    case False
    then have p: "0 < x" using x by simp
    have "0 \<le> \<bar>x\<bar> / pow2 (ilog2 \<bar>x\<bar> - 52)" using pow2_pos [of "ilog2 \<bar>x\<bar> - 52"] by simp
    then have "0 \<le> rne (\<bar>x\<bar> / pow2 (ilog2 \<bar>x\<bar> - 52))" by (rule rne_nonneg)
    then show ?thesis using p pow2_pos [of "ilog2 \<bar>x\<bar> - 52"]
      by (simp add: fl_def Let_def)
  qed
qed

lemma ratio_nonneg: "0 \<le> ratio a b"
  by (simp add: ratio_def calculate_ratio_def fdiv_def fmul_def float_of_nat_def fl_nonneg)

lemma funpow_fadd_nonneg: "0 \<le> acc \<Longrightarrow> 0 \<le> d \<Longrightarrow> 0 \<le> ((\<lambda>x. fadd x d) ^^ n) acc"
  by (induction n) (simp_all add: fadd_def fl_nonneg)

lemma total_score_nonneg: "0 \<le> total_score U ql c"
proof -
  have d: "0 \<le> fl (3 / 10)" "0 \<le> fl (3 / 2)" "0 \<le> fl (6 / 5)" by (simp_all add: fl_nonneg)
  have k: "0 \<le> fold (keyword_step t s ch) kws 0" for t s ch kws
    by (simp add: keyword_fold funpow_fadd_nonneg d)
  show ?thesis
    by (simp add: total_score_def Let_def similarity_score_def fadd_def fmul_def fl_nonneg
          ratio_nonneg k d)
qed

lemma ex_code: "total_score ascii_only (str_lower ascii_only (asc ''a_b'')) (probe ''a'') = 1 / 2"
  by code_simp
lemma ex_claim: "spec_score ascii_only (isalnum ascii_only) (asc ''a_b'') (probe ''a'') = fl (4 / 5)"
  by code_simp
lemma ex_spec: "spec_score ascii_only (word_char ascii_only) (asc ''a_b'') (probe ''a'') = 1 / 2"
  by code_simp
lemma ex_ne: "fl (4 / 5) \<noteq> 1 / 2" by code_simp


text \<open>
  C1, as worded, fails: the tokens of \<^verbatim>\<open>\b\w+\b\<close> are runs of word characters, and the underscore
  is one. The query \<^verbatim>\<open>a_b\<close> is one token, which does not occur in the text \<^verbatim>\<open>a\<close>; its
  alphanumeric runs \<^verbatim>\<open>a\<close> and \<^verbatim>\<open>b\<close> are two, of which the first occurs. The code scores 0.5,
  the formula over alphanumeric tokens 0.8.
\<close>

theorem total_score_alphanumeric_counterexample:
  "total_score ascii_only (str_lower ascii_only (asc ''a_b'')) (probe ''a'') = 1 / 2
   \<and> spec_score ascii_only (isalnum ascii_only) (asc ''a_b'') (probe ''a'') = fl (4 / 5)
   \<and> fl (4 / 5) \<noteq> 1 / 2"
  using ex_code ex_claim ex_ne by blast

text \<open>
  C1, amended. For every query and chunk the score computed by \<open>search_relevant_chunks\<close> is
  the formula of the claim with the tokens of the lowercased query taken as the maximal runs of
  word characters (alphanumeric or underscore), in float arithmetic, and it is \<open>\<ge> 0\<close>.
\<close>

theorem total_score_formula:
  "(lower_idempotent U \<longrightarrow>
      total_score U (str_lower U query) c = spec_score U (word_char U) query c)
   \<and> 0 \<le> total_score U (str_lower U query) c"
proof
  show "lower_idempotent U \<longrightarrow>
      total_score U (str_lower U query) c = spec_score U (word_char U) query c"
  proof
    assume i: "lower_idempotent U"
    have m: "fmul x y = fmul y x" for x y by (simp add: fmul_def mult.commute)
    have o: "(\<lambda>k. str_in k (str_lower U (get_str (key_chunk c)))
                  \<or> str_in k (str_lower U (get_str (key_subtopic c)))
                  \<or> str_in k (str_lower U (get_str (key_chapter c)))) = occurs U c"
      by (simp add: occurs_def [abs_def])
    show "total_score U (str_lower U query) c = spec_score U (word_char U) query c"
      by (simp add: total_score_def spec_score_def spec_keyword_score_def similarity_score_def
            str_lower_idem [OF i] keyword_fold findall_words_def Let_def o
            m [of _ "fl (3 / 2)"] m [of _ "fl (6 / 5)"])
  qed
next
  show "0 \<le> total_score U (str_lower U query) c" by (rule total_score_nonneg)
qed

theorem total_score_formula_witness:
  "lower_idempotent ascii_only
   \<and> total_score ascii_only (str_lower ascii_only (asc ''a_b'')) (probe ''a'')
       = spec_score ascii_only (word_char ascii_only) (asc ''a_b'') (probe ''a'')
   \<and> spec_score ascii_only (word_char ascii_only) (asc ''a_b'') (probe ''a'') = 1 / 2"
  using total_score_formula [of ascii_only "asc ''a_b''" "probe ''a''"] ascii_only_idempotent ex_spec
  by blast

section \<open>Floating point: \<open>fl\<close> rounds to nearest\<close>

text \<open>
  \<open>ilog2\<close> is the binary exponent, so \<open>fl x\<close> is an integer multiple of \<open>2 ^ (e - 52)\<close> with a
  significand between \<open>2 ^ 52\<close> and \<open>2 ^ 53\<close>, at most half a unit in the last place from \<open>x\<close>.
\<close>

lemma bits_bounds: "0 < n \<Longrightarrow> 2 ^ (bits n - 1) \<le> n \<and> n < 2 ^ bits n"
proof (induction n rule: bits.induct)
  case (1 n)
  show ?case
  proof (cases "n div 2 = 0")
    case True
    then have "n = 1" using "1.prems" by presburger
    then show ?thesis by (simp add: bits.simps)
  next
    case False
    then have ih: "2 ^ (bits (n div 2) - 1) \<le> n div 2 \<and> n div 2 < 2 ^ bits (n div 2)"
      using "1.IH" "1.prems" by simp
    have b: "bits n = Suc (bits (n div 2))" using "1.prems" by (subst bits.simps) simp
    have pos: "0 < bits (n div 2)" using False by (subst bits.simps) simp
    then obtain k where k: "bits (n div 2) = Suc k" by (cases "bits (n div 2)") auto
    have "2 * 2 ^ k \<le> 2 * (n div 2)" using ih k by simp
    moreover have "2 * (n div 2) \<le> n" by simp
    ultimately have lo: "2 ^ Suc k \<le> n" by simp
    have "Suc (n div 2) \<le> 2 ^ Suc k" using ih k by simp
    then have "2 * Suc (n div 2) \<le> 2 * 2 ^ Suc k" by (rule mult_le_mono2)
    moreover have "n < 2 * Suc (n div 2)" by presburger
    ultimately have hi: "n < 2 ^ Suc (Suc k)" by simp
    show ?thesis using lo hi by (simp add: b k)
  qed
qed

lemma pow2_nat: "pow2 (int k) = 2 ^ k"
  by (simp add: pow2_def)

lemma pow2_neg_nat: "pow2 (- int k) = 1 / 2 ^ k"
  by (cases k) (simp_all add: pow2_def nat_add_distrib)

lemma pow2_Suc: "pow2 (e + 1) = 2 * pow2 e"
proof (cases "0 \<le> e")
  case True
  then show ?thesis by (simp add: pow2_def nat_add_distrib)
next
  case False
  define k where "k = nat (- e - 1)"
  have e: "e = - int (Suc k)" using False by (simp add: k_def)
  have "e + 1 = - int k" using e by simp
  then have "pow2 (e + 1) = 1 / 2 ^ k" by (simp only: pow2_neg_nat)
  moreover have "pow2 e = 1 / 2 ^ Suc k" unfolding e by (rule pow2_neg_nat)
  ultimately show ?thesis by simp
qed

lemma ilog2_bracket:
  assumes "0 < x"
  shows "pow2 (ilog2 x) \<le> x \<and> x < pow2 (ilog2 x + 1)"
proof (cases "1 \<le> x")
  case True
  let ?n = "nat \<lfloor>x\<rfloor>"
  have n: "0 < ?n" using True by simp
  obtain k where k: "bits ?n = Suc k" using bits_bounds [OF n] by (cases "bits ?n") auto
  have lo: "2 ^ k \<le> ?n" and hi: "?n < 2 ^ Suc k" using bits_bounds [OF n] k by simp_all
  have e: "ilog2 x = int k" using True by (simp add: ilog2_def k)
  have "(2::rat) ^ k \<le> of_nat ?n" using lo by (metis of_nat_le_iff of_nat_numeral of_nat_power)
  also have "\<dots> \<le> x" using True by simp
  finally have 1: "pow2 (ilog2 x) \<le> x" by (simp add: e pow2_nat)
  have "int ?n = \<lfloor>x\<rfloor>" using True by simp
  moreover have "int ?n < 2 ^ Suc k" using hi by (metis of_nat_less_iff of_nat_numeral of_nat_power)
  ultimately have "\<lfloor>x\<rfloor> < 2 ^ Suc k" by simp
  then have "x < 2 ^ Suc k" by (metis floor_less_iff of_int_numeral of_int_power)
  then have 2: "x < pow2 (ilog2 x + 1)" by (simp add: e pow2_Suc pow2_nat)
  from 1 2 show ?thesis ..
next
  case False
  then have lt: "x < 1" by simp
  let ?m = "nat (\<lceil>1 / x\<rceil> - 1)"
  have inv: "1 < 1 / x" using assms lt by simp
  then have "1 < \<lceil>1 / x\<rceil>" by (simp only: less_ceiling_iff of_int_1)
  then have c: "2 \<le> \<lceil>1 / x\<rceil>" by simp
  then have m: "0 < ?m" by simp
  obtain k where k: "bits ?m = Suc k" using bits_bounds [OF m] by (cases "bits ?m") auto
  have lo: "2 ^ k \<le> ?m" and hi: "?m < 2 ^ Suc k" using bits_bounds [OF m] k by simp_all
  have e: "ilog2 x = - int (Suc k)" using False by (simp add: ilog2_def k)
  have nn: "0 \<le> \<lceil>1 / x\<rceil> - 1" using c by linarith
  have im: "int ?m = \<lceil>1 / x\<rceil> - 1" using nn by (simp only: int_nat_eq if_True)
  have "int ?m < 2 ^ Suc k" using hi by (metis of_nat_less_iff of_nat_numeral of_nat_power)
  then have "\<lceil>1 / x\<rceil> - 1 < 2 ^ Suc k" by (simp only: im)
  then have "\<lceil>1 / x\<rceil> \<le> 2 ^ Suc k" by simp
  then have "1 / x \<le> 2 ^ Suc k" by (metis ceiling_le_iff of_int_numeral of_int_power)
  then have "1 \<le> 2 ^ Suc k * x" using assms by (simp add: pos_divide_le_eq mult.commute)
  then have 1: "pow2 (ilog2 x) \<le> x" 
    unfolding e pow2_neg_nat using assms by (simp add: pos_divide_le_eq mult.commute)
  have "2 ^ k \<le> int ?m" using lo by (metis of_nat_le_iff of_nat_numeral of_nat_power)
  then have "2 ^ k \<le> \<lceil>1 / x\<rceil> - 1" by (simp only: im)
  then have "2 ^ k < \<lceil>1 / x\<rceil>" by simp
  then have "(2::rat) ^ k < 1 / x" by (metis less_ceiling_iff of_int_numeral of_int_power)
  then have "2 ^ k * x < 1" using assms by (simp add: pos_less_divide_eq)
  then have "x < 1 / 2 ^ k" using assms by (simp add: pos_less_divide_eq mult.commute)
  moreover have "pow2 (ilog2 x + 1) = 1 / 2 ^ k"
    unfolding e using pow2_neg_nat [of k] by simp
  ultimately have 2: "x < pow2 (ilog2 x + 1)" by simp
  from 1 2 show ?thesis ..
qed

lemma rne_nearest: "\<bar>of_int (rne y) - y\<bar> \<le> 1 / 2"
proof -
  have "of_int \<lfloor>y\<rfloor> \<le> y" "y < of_int \<lfloor>y\<rfloor> + 1" by linarith+
  then show ?thesis by (auto simp: rne_def Let_def abs_le_iff)
qed

lemma pow2_add_nat: "pow2 (e + int k) = 2 ^ k * pow2 e"
proof (induction k)
  case 0
  then show ?case by simp
next
  case (Suc k)
  have "e + int (Suc k) = (e + int k) + 1" by simp
  then have "pow2 (e + int (Suc k)) = pow2 ((e + int k) + 1)" by (simp only:)
  also have "\<dots> = 2 * pow2 (e + int k)" by (rule pow2_Suc)
  finally show ?case using Suc.IH by simp
qed

lemma rne_range:
  assumes "of_int a \<le> y" "y < of_int b"
  shows "a \<le> rne y \<and> rne y \<le> b"
proof -
  have "a \<le> \<lfloor>y\<rfloor>" using assms(1) by (simp add: le_floor_iff)
  moreover have "\<lfloor>y\<rfloor> < b" using assms(2) by (simp add: floor_less_iff)
  ultimately show ?thesis by (auto simp: rne_def Let_def)
qed

lemma fl_nearest:
  assumes "0 < x"
  shows "fl x = of_int (rne (x / pow2 (ilog2 x - 52))) * pow2 (ilog2 x - 52)
         \<and> 2 ^ 52 \<le> rne (x / pow2 (ilog2 x - 52))
         \<and> rne (x / pow2 (ilog2 x - 52)) \<le> 2 ^ 53
         \<and> \<bar>fl x - x\<bar> \<le> pow2 (ilog2 x - 52) / 2"
proof -
  let ?u = "pow2 (ilog2 x - 52)"
  let ?n = "rne (x / ?u)"
  have u: "0 < ?u" by (rule pow2_pos)
  have f: "fl x = of_int ?n * ?u" using assms by (simp add: fl_def Let_def)
  have "pow2 (ilog2 x) = pow2 ((ilog2 x - 52) + int 52)" by simp
  also have "\<dots> = 2 ^ 52 * ?u" by (rule pow2_add_nat)
  finally have e0: "pow2 (ilog2 x) = 2 ^ 52 * ?u" .
  have "pow2 (ilog2 x + 1) = 2 * pow2 (ilog2 x)" by (rule pow2_Suc)
  then have e1: "pow2 (ilog2 x + 1) = 2 ^ 53 * ?u" using e0 by simp
  have lo: "2 ^ 52 \<le> x / ?u" using ilog2_bracket [OF assms] u by (simp add: e0 pos_le_divide_eq)
  have hi: "x / ?u < 2 ^ 53" using ilog2_bracket [OF assms] u by (simp add: e1 pos_divide_less_eq)
  have r: "2 ^ 52 \<le> ?n \<and> ?n \<le> 2 ^ 53"
    using rne_range [of "2 ^ 52" "x / ?u" "2 ^ 53"] lo hi by simp
  have "\<bar>of_int ?n - x / ?u\<bar> \<le> 1 / 2" by (rule rne_nearest)
  then have "\<bar>of_int ?n - x / ?u\<bar> * ?u \<le> 1 / 2 * ?u" using u by (simp only: mult_le_cancel_right_pos)
  moreover have "\<bar>of_int ?n - x / ?u\<bar> * ?u = \<bar>of_int ?n * ?u - x\<bar>"
  proof -
    have "\<bar>of_int ?n - x / ?u\<bar> * ?u = \<bar>(of_int ?n - x / ?u) * ?u\<bar>"
      using u by (simp add: abs_mult)
    also have "(of_int ?n - x / ?u) * ?u = of_int ?n * ?u - x"
      using u by (simp add: left_diff_distrib)
    finally show ?thesis .
  qed
  ultimately have d: "\<bar>fl x - x\<bar> \<le> ?u / 2" by (simp add: f)
  from f r d show ?thesis by blast
qed

section \<open>Retrieval: verification\<close>

lemma score_fold:
  "fold (score_step U ql) kb acc
     = acc @ map (\<lambda>c. \<lparr>item_chunk = c, item_score = total_score U ql c\<rparr>)
               (filter (\<lambda>c. fl (1 / 10) < total_score U ql c) kb)"
  by (induction kb arbitrary: acc) (simp_all add: score_step_def Let_def)

lemma insort_key_map:
  "insort_key f (g x) (map g ys) = map g (insort_key (\<lambda>y. f (g y)) x ys)"
  by (induction ys) simp_all

lemma sort_key_map:
  "sort_key f (map g xs) = map g (sort_key (\<lambda>y. f (g y)) xs)"
  by (induction xs) (simp_all add: insort_key_map)

lemma search_eq:
  "search_relevant_chunks U kb query top_k = slice_to top_k (ranked_chunks U kb query)"
proof (cases "kb = []")
  case True
  then show ?thesis by (simp add: search_relevant_chunks_def ranked_chunks_def slice_to_def)
next
  case False
  have "map item_chunk (slice_to top_k xs) = slice_to top_k (map item_chunk xs)" for xs :: "scored_chunk list"
    by (simp add: slice_to_def take_map)
  then show ?thesis using False
    by (simp add: search_relevant_chunks_def ranked_chunks_def score_fold sort_key_map
          passes_def [abs_def] Let_def comp_def)
qed

lemma slice_to_prefix: "prefix (slice_to k xs) xs"
  by (simp add: slice_to_def take_is_prefix)

lemma sorted_wrt_prefix: "prefix xs ys \<Longrightarrow> sorted_wrt R ys \<Longrightarrow> sorted_wrt R xs"
  by (auto simp: prefix_def sorted_wrt_append)

lemma ranked_sorted:
  "sorted_wrt (\<lambda>a b. total_score U (str_lower U query) b \<le> total_score U (str_lower U query) a)
     (ranked_chunks U kb query)"
proof -
  have "sorted (map (\<lambda>c. - total_score U (str_lower U query) c) (ranked_chunks U kb query))"
    unfolding ranked_chunks_def by (rule sorted_sort_key)
  then show ?thesis by (simp add: sorted_map)
qed

lemma ranked_stable:
  "filter (\<lambda>c. total_score U (str_lower U query) c = s) (ranked_chunks U kb query)
     = filter (\<lambda>c. total_score U (str_lower U query) c = s) (filter (passes U query) kb)"
proof -
  have "filter (\<lambda>c. - total_score U (str_lower U query) c = - s) (ranked_chunks U kb query)
     = filter (\<lambda>c. - total_score U (str_lower U query) c = - s) (filter (passes U query) kb)"
    unfolding ranked_chunks_def by (rule sort_key_stable)
  then show ?thesis by simp
qed

lemma ties_prefix:
  "prefix (filter (\<lambda>c. total_score U (str_lower U query) c = s) (slice_to k (ranked_chunks U kb query)))
      (filter (\<lambda>c. total_score U (str_lower U query) c = s) kb)"
proof (cases "fl (1 / 10) < s")
  case True
  have "filter (\<lambda>c. total_score U (str_lower U query) c = s) (filter (passes U query) kb)
          = filter (\<lambda>c. total_score U (str_lower U query) c = s) kb"
    using True by (auto simp: passes_def intro!: filter_cong)
  then show ?thesis
    using filter_mono_prefix [OF slice_to_prefix, of _ k "ranked_chunks U kb query"]
    by (metis ranked_stable)
next
  case False
  have "set (slice_to k (ranked_chunks U kb query)) \<subseteq> set (filter (passes U query) kb)"
    using set_mono_prefix [OF slice_to_prefix, of k "ranked_chunks U kb query"]
    by (simp add: ranked_chunks_def)
  then have "filter (\<lambda>c. total_score U (str_lower U query) c = s) (slice_to k (ranked_chunks U kb query)) = []"
    using False by (auto simp: filter_empty_conv passes_def)
  then show ?thesis by simp
qed


lemma search_all_when_few:
  assumes "int (length (filter (passes U query) kb)) \<le> top_k"
  shows "set (search_relevant_chunks U kb query top_k) = set (filter (passes U query) kb)"
proof -
  have "length (ranked_chunks U kb query) \<le> nat top_k" "0 \<le> top_k"
    using assms by (simp_all add: ranked_chunks_def)
  then have "slice_to top_k (ranked_chunks U kb query) = ranked_chunks U kb query"
    by (simp add: slice_to_def)
  then show ?thesis by (simp add: search_eq) (simp add: ranked_chunks_def)
qed


lemma two_probes:
  "search_relevant_chunks ascii_only [probe ''x'', probe ''y''] [] 1 = [probe ''x'']"
  by (simp add: search_eq ranked_chunks_def passes_def total_score_labels_empty probe_fields
        asc_Nil_iff fl_floor slice_to_def)

lemma two_probes_negative:
  "search_relevant_chunks ascii_only [probe ''x'', probe ''y''] [] (- 1) = [probe ''x'']"
  by (simp add: search_eq ranked_chunks_def passes_def total_score_labels_empty probe_fields
        asc_Nil_iff fl_floor slice_to_def)

lemma four_probes:
  "search_relevant_chunks ascii_only [probe ''x'', probe ''y'', probe ''z'', probe ''w''] [] 3
     = [probe ''x'', probe ''y'', probe ''z'']"
  by (simp add: search_eq ranked_chunks_def passes_def total_score_labels_empty probe_fields
        asc_Nil_iff fl_floor slice_to_def)

text \<open>
  C2, as worded, fails for a negative \<open>top_k\<close>: the slice \<^verbatim>\<open>scored_chunks[:top_k]\<close> then drops
  that many chunks from the end, and what remains is more than \<open>top_k\<close> chunks.
\<close>

theorem search_relevant_chunks_negative_top_k_counterexample:
  "search_relevant_chunks ascii_only [probe ''x'', probe ''y''] [] (- 1) = [probe ''x'']
   \<and> \<not> int (length (search_relevant_chunks ascii_only [probe ''x'', probe ''y''] [] (- 1))) \<le> - 1"
  by (simp add: two_probes_negative)

text \<open>
  C2, amended. \<open>search_relevant_chunks\<close> returns the first \<open>top_k\<close> chunks of the ranking (for a
  negative \<open>top_k\<close>, all but the last \<open>- top_k\<close>). For every \<open>top_k \<ge> 0\<close> these are at most \<open>top_k\<close>
  chunks. For every \<open>top_k\<close>, every returned chunk is a chunk of the corpus and scores strictly
  above the float \<^verbatim>\<open>0.1\<close>, scores descend along the result, the returned chunks of any one score
  are the first chunks of that score in corpus order, and the empty corpus gives the empty list.
\<close>

theorem search_relevant_chunks_ranked:
  "search_relevant_chunks U kb query top_k = slice_to top_k (ranked_chunks U kb query)
   \<and> (0 \<le> top_k \<longrightarrow> int (length (search_relevant_chunks U kb query top_k)) \<le> top_k)
   \<and> set (search_relevant_chunks U kb query top_k) \<subseteq> set kb
   \<and> (\<forall>c \<in> set (search_relevant_chunks U kb query top_k).
         fl (1 / 10) < total_score U (str_lower U query) c)
   \<and> sorted_wrt (\<lambda>a b. total_score U (str_lower U query) b \<le> total_score U (str_lower U query) a)
         (search_relevant_chunks U kb query top_k)
   \<and> (\<forall>s. prefix (filter (\<lambda>c. total_score U (str_lower U query) c = s)
                      (search_relevant_chunks U kb query top_k))
                   (filter (\<lambda>c. total_score U (str_lower U query) c = s) kb))
   \<and> search_relevant_chunks U [] query top_k = []"
proof -
  let ?r = "search_relevant_chunks U kb query top_k"
  have eq: "?r = slice_to top_k (ranked_chunks U kb query)" by (rule search_eq)
  have pre: "prefix ?r (ranked_chunks U kb query)" unfolding eq by (rule slice_to_prefix)
  have sub: "set ?r \<subseteq> set (filter (passes U query) kb)"
    using set_mono_prefix [OF pre] by (simp add: ranked_chunks_def)
  have 1: "0 \<le> top_k \<longrightarrow> int (length ?r) \<le> top_k"
    unfolding eq by (auto simp: slice_to_def)
  have 2: "set ?r \<subseteq> set kb" using sub by auto
  have 3: "\<forall>c \<in> set ?r. fl (1 / 10) < total_score U (str_lower U query) c"
    using sub by (auto simp: passes_def)
  have 4: "sorted_wrt (\<lambda>a b. total_score U (str_lower U query) b \<le> total_score U (str_lower U query) a) ?r"
    using sorted_wrt_prefix [OF pre ranked_sorted] .
  have 5: "\<forall>s. prefix (filter (\<lambda>c. total_score U (str_lower U query) c = s) ?r)
                   (filter (\<lambda>c. total_score U (str_lower U query) c = s) kb)"
    unfolding eq by (simp add: ties_prefix)
  have 6: "search_relevant_chunks U [] query top_k = []"
    by (simp add: search_relevant_chunks_def)
  from eq 1 2 3 4 5 6 show ?thesis by blast
qed

theorem search_relevant_chunks_ranked_witness:
  "(0::int) \<le> 1
   \<and> int (length (search_relevant_chunks ascii_only [probe ''x'', probe ''y''] [] 1)) \<le> 1
   \<and> search_relevant_chunks ascii_only [probe ''x'', probe ''y''] [] 1 = [probe ''x'']"
proof -
  have "(0::int) \<le> 1
        \<longrightarrow> int (length (search_relevant_chunks ascii_only [probe ''x'', probe ''y''] [] 1)) \<le> 1"
    using search_relevant_chunks_ranked [of ascii_only "[probe ''x'', probe ''y'']" "[]" 1]
    by blast
  then show ?thesis using two_probes by simp
qed


text \<open>
  C10, as worded, fails in its last part: a chunk that passes the floor is returned only if
  it is among the first \<open>top_k\<close> of the ranking. Of four such chunks and \<open>top_k = 3\<close> the fourth
  is not returned.
\<close>

theorem empty_query_fourth_chunk_counterexample:
  "get_str (key_subtopic (probe ''w'')) = [] \<and> get_str (key_chapter (probe ''w'')) = []
   \<and> get_str (key_chunk (probe ''w'')) \<noteq> []
   \<and> probe ''w'' \<in> set [probe ''x'', probe ''y'', probe ''z'', probe ''w'']
   \<and> search_relevant_chunks ascii_only [probe ''x'', probe ''y'', probe ''z'', probe ''w''] [] 3
        = [probe ''x'', probe ''y'', probe ''z'']
   \<and> probe ''w'' \<notin> set (search_relevant_chunks ascii_only
          [probe ''x'', probe ''y'', probe ''z'', probe ''w''] [] 3)"
  by (simp add: four_probes probe_fields asc_Nil_iff) (simp add: probe_def asc_def)

text \<open>
  C10, amended. For the empty query and a chunk whose subtopic and chapter are empty (or
  missing) and whose text is not, the total score is the float \<^verbatim>\<open>2.7\<close>, above the floor
  \<^verbatim>\<open>0.1\<close>; the chunk is returned by \<open>search_relevant_chunks\<close> whenever it is in the corpus and at
  most \<open>top_k\<close> chunks of the corpus pass the floor.
\<close>

theorem empty_query_text_only_score:
  "get_str (key_subtopic c) = [] \<and> get_str (key_chapter c) = [] \<and> get_str (key_chunk c) \<noteq> []
   \<longrightarrow> total_score U (str_lower U []) c = fl (27 / 10)
       \<and> fl (1 / 10) < total_score U (str_lower U []) c
       \<and> (c \<in> set kb \<and> int (length (filter (passes U []) kb)) \<le> top_k
            \<longrightarrow> c \<in> set (search_relevant_chunks U kb [] top_k))"
proof (intro impI, elim conjE)
  assume a: "get_str (key_subtopic c) = []" "get_str (key_chapter c) = []" "get_str (key_chunk c) \<noteq> []"
  have s: "total_score U (str_lower U []) c = fl (27 / 10)" using a by (rule total_score_labels_empty)
  have p: "passes U [] c" by (simp add: passes_def s fl_floor)
  have "c \<in> set (search_relevant_chunks U kb [] top_k)"
    if "c \<in> set kb \<and> int (length (filter (passes U []) kb)) \<le> top_k"
    using that p by (simp add: search_all_when_few)
  then show "total_score U (str_lower U []) c = fl (27 / 10)
       \<and> fl (1 / 10) < total_score U (str_lower U []) c
       \<and> (c \<in> set kb \<and> int (length (filter (passes U []) kb)) \<le> top_k
            \<longrightarrow> c \<in> set (search_relevant_chunks U kb [] top_k))"
    using s fl_floor by simp
qed

theorem empty_query_text_only_score_witness:
  "get_str (key_subtopic (probe ''x'')) = [] \<and> get_str (key_chapter (probe ''x'')) = []
   \<and> get_str (key_chunk (probe ''x'')) \<noteq> []
   \<and> probe ''x'' \<in> set [probe ''x'']
   \<and> int (length (filter (passes ascii_only []) [probe ''x''])) \<le> 3
   \<and> total_score ascii_only (str_lower ascii_only []) (probe ''x'') = fl (27 / 10)
   \<and> probe ''x'' \<in> set (search_relevant_chunks ascii_only [probe ''x''] [] 3)"
  using empty_query_text_only_score [of "probe ''x''" ascii_only "[probe ''x'']" 3]
  by (simp add: probe_fields asc_Nil_iff)


section \<open>Context assembly: verification\<close>

lemma collect_parts_greedy:
  "\<exists>n \<le> length cs.
     collect_parts ml cs parts cur = parts @ map format_chunk (take n cs)
     \<and> int cur + int (sum_list (map length (map format_chunk (take n cs)))) \<le> max ml (int cur)
     \<and> (n < length cs \<longrightarrow>
          ml < int cur + int (sum_list (map length (map format_chunk (take n cs))))
                 + int (length (format_chunk (cs ! n))))"
proof (induction cs arbitrary: parts cur)
  case Nil
  then show ?case by simp
next
  case (Cons c cs)
  show ?case
  proof (cases "int cur + int (length (format_chunk c)) \<le> ml")
    case True
    from Cons.IH [of "parts @ [format_chunk c]" "cur + length (format_chunk c)"]
    obtain n where n: "n \<le> length cs"
      "collect_parts ml cs (parts @ [format_chunk c]) (cur + length (format_chunk c))
         = (parts @ [format_chunk c]) @ map format_chunk (take n cs)"
      "int (cur + length (format_chunk c)) + int (sum_list (map length (map format_chunk (take n cs))))
         \<le> max ml (int (cur + length (format_chunk c)))"
      "n < length cs \<longrightarrow>
          ml < int (cur + length (format_chunk c)) + int (sum_list (map length (map format_chunk (take n cs))))
                 + int (length (format_chunk (cs ! n)))"
      by blast
    have "Suc n \<le> length (c # cs)" using n(1) by simp
    moreover have "collect_parts ml (c # cs) parts cur = parts @ map format_chunk (take (Suc n) (c # cs))"
      using True n(2) by (simp add: Let_def)
    moreover have "int cur + int (sum_list (map length (map format_chunk (take (Suc n) (c # cs))))) \<le> max ml (int cur)"
      using True n(3) by (auto simp: algebra_simps)
    moreover have "Suc n < length (c # cs) \<longrightarrow>
          ml < int cur + int (sum_list (map length (map format_chunk (take (Suc n) (c # cs)))))
                 + int (length (format_chunk ((c # cs) ! Suc n)))"
      using n(4) by (auto simp: algebra_simps)
    ultimately show ?thesis by blast
  next
    case False
    then have "collect_parts ml (c # cs) parts cur = parts @ map format_chunk (take 0 (c # cs))"
      by (simp add: Let_def)
    moreover have "int cur + int (sum_list (map length (map format_chunk (take 0 (c # cs))))) \<le> max ml (int cur)"
      by simp
    moreover have "0 < length (c # cs) \<longrightarrow>
          ml < int cur + int (sum_list (map length (map format_chunk (take 0 (c # cs)))))
                 + int (length (format_chunk ((c # cs) ! 0)))"
      using False by simp
    ultimately show ?thesis by (metis le0)
  qed
qed

lemma length_join:
  "length (join sep ps) = sum_list (map length ps) + length sep * (length ps - 1)"
  by (induction sep ps rule: join.induct) simp_all

lemma context_parts_greedy:
  "prefix (context_parts U kb query ml) (map format_chunk (search_relevant_chunks U kb query 3))
   \<and> (0 \<le> ml \<longrightarrow> int (sum_list (map length (context_parts U kb query ml))) \<le> ml)
   \<and> (context_parts U kb query ml \<noteq> map format_chunk (search_relevant_chunks U kb query 3) \<longrightarrow>
        ml < int (sum_list (map length (context_parts U kb query ml)))
             + int (length (map format_chunk (search_relevant_chunks U kb query 3)
                              ! length (context_parts U kb query ml))))"
proof -
  let ?cs = "search_relevant_chunks U kb query 3"
  from collect_parts_greedy [of ?cs ml "[]" 0]
  obtain n where n: "n \<le> length ?cs"
     "context_parts U kb query ml = map format_chunk (take n ?cs)"
     "int (sum_list (map length (map format_chunk (take n ?cs)))) \<le> max ml 0"
     "n < length ?cs \<longrightarrow> ml < int (sum_list (map length (map format_chunk (take n ?cs))))
                 + int (length (format_chunk (?cs ! n)))"
    by (auto simp: context_parts_def)
  have p: "context_parts U kb query ml = take n (map format_chunk ?cs)"
    using n(2) by (simp add: take_map)
  have 1: "prefix (context_parts U kb query ml) (map format_chunk ?cs)"
    unfolding p by (rule take_is_prefix)
  have 2: "0 \<le> ml \<longrightarrow> int (sum_list (map length (context_parts U kb query ml))) \<le> ml"
    using n(3) by (auto simp: n(2))
  have len: "length (context_parts U kb query ml) = n" using n(1) by (simp add: n(2))
  have 3: "context_parts U kb query ml \<noteq> map format_chunk ?cs \<longrightarrow>
        ml < int (sum_list (map length (context_parts U kb query ml)))
             + int (length (map format_chunk ?cs ! length (context_parts U kb query ml)))"
  proof
    assume "context_parts U kb query ml \<noteq> map format_chunk ?cs"
    then have "n < length ?cs" using n(1) p by (cases "n = length ?cs") auto
    then show "ml < int (sum_list (map length (context_parts U kb query ml)))
             + int (length (map format_chunk ?cs ! length (context_parts U kb query ml)))"
      using n(4) by (simp add: len) (simp add: n(2))
  qed
  from 1 2 3 show ?thesis by blast
qed

lemma get_context_join:
  "search_relevant_chunks U kb query 3 \<noteq> [] \<Longrightarrow>
     get_context_for_query U kb query ml = join [10] (context_parts U kb query ml)"
  by (simp add: get_context_for_query_def context_parts_def Let_def)

lemma get_context_fallback:
  "search_relevant_chunks U kb query 3 = [] \<Longrightarrow> get_context_for_query U kb query ml = fallback_context"
  by (simp add: get_context_for_query_def)


lemma format_probe: "length (format_chunk (probe s)) = 12 + length s"
  by (simp add: format_chunk_def probe_def get_str_def asc_def)

lemma three_probes:
  "search_relevant_chunks ascii_only [probe ''a'', probe ''bbbbbbbbbbbbbbbbbbbb'', probe ''c''] [] 3
     = [probe ''a'', probe ''bbbbbbbbbbbbbbbbbbbb'', probe ''c'']"
  by (simp add: search_eq ranked_chunks_def passes_def total_score_labels_empty probe_fields
        asc_Nil_iff fl_floor slice_to_def)

lemma three_probes_parts:
  "context_parts ascii_only [probe ''a'', probe ''bbbbbbbbbbbbbbbbbbbb'', probe ''c''] [] 20
     = [format_chunk (probe ''a'')]"
  by (simp add: context_parts_def three_probes format_probe Let_def)

lemma one_probe: "search_relevant_chunks ascii_only [probe ''x''] [] 3 = [probe ''x'']"
  by (simp add: search_eq ranked_chunks_def passes_def total_score_labels_empty probe_fields
        asc_Nil_iff fl_floor slice_to_def)

lemma context_parts_length: "length (context_parts U kb query ml) \<le> 3"
proof -
  have "length (context_parts U kb query ml) \<le> length (map format_chunk (search_relevant_chunks U kb query 3))"
    using context_parts_greedy [of U kb query ml] by (blast intro: prefix_length_le)
  moreover have "length (search_relevant_chunks U kb query 3) \<le> 3"
    by (simp add: search_eq slice_to_def)
  ultimately show ?thesis by simp
qed

lemma two_probes_a: "search_relevant_chunks ascii_only [probe ''a'', probe ''b''] [] 3 = [probe ''a'', probe ''b'']"
  by (simp add: search_eq ranked_chunks_def passes_def total_score_labels_empty probe_fields
        asc_Nil_iff fl_floor slice_to_def)


text \<open>
  C3, as worded, fails for a negative budget: no block is included, and the sum of the lengths
  of no blocks is 0, above the budget.
\<close>

theorem get_context_negative_budget_counterexample:
  "context_parts ascii_only [probe ''x''] [] (- 1) = []
   \<and> get_context_for_query ascii_only [probe ''x''] [] (- 1) = []
   \<and> \<not> int (sum_list (map length (context_parts ascii_only [probe ''x''] [] (- 1)))) \<le> - 1"
  by (simp add: get_context_for_query_def context_parts_def one_probe Let_def)


text \<open>
  C3, amended. When chunks are retrieved, the context is the join of the included blocks.
  For every budget the included blocks are whole formatted blocks of the ranked chunks, a
  prefix of them in ranked order, and when a block is left out, the first one left out is one
  that would exceed the budget (nothing after it is tried). For every budget \<open>\<ge> 0\<close> the sum of
  the lengths of the included blocks is at most the budget.
\<close>

theorem get_context_greedy:
  "(search_relevant_chunks U kb query 3 \<noteq> [] \<longrightarrow>
       get_context_for_query U kb query ml = join [10] (context_parts U kb query ml))
   \<and> prefix (context_parts U kb query ml) (map format_chunk (search_relevant_chunks U kb query 3))
   \<and> (0 \<le> ml \<longrightarrow> int (sum_list (map length (context_parts U kb query ml))) \<le> ml)
   \<and> (context_parts U kb query ml \<noteq> map format_chunk (search_relevant_chunks U kb query 3) \<longrightarrow>
        ml < int (sum_list (map length (context_parts U kb query ml)))
             + int (length (map format_chunk (search_relevant_chunks U kb query 3)
                              ! length (context_parts U kb query ml))))"
  using context_parts_greedy [of U kb query ml] get_context_join [of U kb query ml] by blast

theorem get_context_greedy_witness:
  "search_relevant_chunks ascii_only [probe ''a'', probe ''bbbbbbbbbbbbbbbbbbbb'', probe ''c''] [] 3 \<noteq> []
   \<and> (0::int) \<le> 20
   \<and> context_parts ascii_only [probe ''a'', probe ''bbbbbbbbbbbbbbbbbbbb'', probe ''c''] [] 20
        \<noteq> map format_chunk
            (search_relevant_chunks ascii_only [probe ''a'', probe ''bbbbbbbbbbbbbbbbbbbb'', probe ''c''] [] 3)
   \<and> context_parts ascii_only [probe ''a'', probe ''bbbbbbbbbbbbbbbbbbbb'', probe ''c''] [] 20
        = [format_chunk (probe ''a'')]
   \<and> get_context_for_query ascii_only [probe ''a'', probe ''bbbbbbbbbbbbbbbbbbbb'', probe ''c''] [] 20
        = format_chunk (probe ''a'')
   \<and> int (sum_list (map length
         (context_parts ascii_only [probe ''a'', probe ''bbbbbbbbbbbbbbbbbbbb'', probe ''c''] [] 20))) \<le> 20"
  using get_context_greedy
    [of ascii_only "[probe ''a'', probe ''bbbbbbbbbbbbbbbbbbbb'', probe ''c'']" "[]" 20]
  by (simp add: three_probes three_probes_parts)


text \<open>
  C9. For a budget \<open>\<ge> 0\<close>, a context that is not the fallback string has the length of its
  blocks plus one separator per gap, of which there are at most two; so its length is at most
  the budget plus 2, and it can exceed the budget: two blocks of 13 characters fill a budget
  of 26 and join to 27 characters.
\<close>

theorem get_context_length:
  "(0 \<le> ml \<and> get_context_for_query U kb query ml \<noteq> fallback_context \<longrightarrow>
      length (get_context_for_query U kb query ml)
        = sum_list (map length (context_parts U kb query ml))
          + (length (context_parts U kb query ml) - 1)
      \<and> length (context_parts U kb query ml) - 1 \<le> 2
      \<and> int (length (get_context_for_query U kb query ml)) \<le> ml + 2)
   \<and> (26::int) < int (length (get_context_for_query ascii_only [probe ''a'', probe ''b''] [] 26))"
proof
  show "0 \<le> ml \<and> get_context_for_query U kb query ml \<noteq> fallback_context \<longrightarrow>
      length (get_context_for_query U kb query ml)
        = sum_list (map length (context_parts U kb query ml))
          + (length (context_parts U kb query ml) - 1)
      \<and> length (context_parts U kb query ml) - 1 \<le> 2
      \<and> int (length (get_context_for_query U kb query ml)) \<le> ml + 2"
  proof (intro impI, elim conjE)
    assume ml: "0 \<le> ml" and nf: "get_context_for_query U kb query ml \<noteq> fallback_context"
    have ne: "search_relevant_chunks U kb query 3 \<noteq> []"
      using nf get_context_fallback [of U kb query ml] by blast
    have j: "get_context_for_query U kb query ml = join [10] (context_parts U kb query ml)"
      using ne by (rule get_context_join)
    have l: "length (get_context_for_query U kb query ml)
        = sum_list (map length (context_parts U kb query ml)) + (length (context_parts U kb query ml) - 1)"
      by (simp add: j length_join)
    have g: "length (context_parts U kb query ml) - 1 \<le> 2"
      using context_parts_length [of U kb query ml] by simp
    have s: "int (sum_list (map length (context_parts U kb query ml))) \<le> ml"
      using context_parts_greedy [of U kb query ml] ml by blast
    have "int (length (get_context_for_query U kb query ml)) \<le> ml + 2"
      using l g s by linarith
    with l g show "length (get_context_for_query U kb query ml)
        = sum_list (map length (context_parts U kb query ml))
          + (length (context_parts U kb query ml) - 1)
      \<and> length (context_parts U kb query ml) - 1 \<le> 2
      \<and> int (length (get_context_for_query U kb query ml)) \<le> ml + 2" by blast
  qed
next
  show "(26::int) < int (length (get_context_for_query ascii_only [probe ''a'', probe ''b''] [] 26))"
    by (simp add: get_context_for_query_def two_probes_a format_probe Let_def)
qed

theorem get_context_length_witness:
  "(0::int) \<le> 26
   \<and> get_context_for_query ascii_only [probe ''a'', probe ''b''] [] 26 \<noteq> fallback_context
   \<and> length (get_context_for_query ascii_only [probe ''a'', probe ''b''] [] 26) = 27
   \<and> sum_list (map length (context_parts ascii_only [probe ''a'', probe ''b''] [] 26)) = 26
   \<and> length (context_parts ascii_only [probe ''a'', probe ''b''] [] 26) - 1 = 1"
proof -
  have p: "context_parts ascii_only [probe ''a'', probe ''b''] [] 26
             = [format_chunk (probe ''a''), format_chunk (probe ''b'')]"
    by (simp add: context_parts_def two_probes_a format_probe Let_def)
  have nf: "get_context_for_query ascii_only [probe ''a'', probe ''b''] [] 26 \<noteq> fallback_context"
    by (simp add: get_context_for_query_def two_probes_a format_probe Let_def)
       (simp add: format_chunk_def fallback_context_def asc_def)
  from get_context_length [of 26 ascii_only "[probe ''a'', probe ''b'']" "[]"] nf
  have "length (get_context_for_query ascii_only [probe ''a'', probe ''b''] [] 26)
        = sum_list (map length (context_parts ascii_only [probe ''a'', probe ''b''] [] 26))
          + (length (context_parts ascii_only [probe ''a'', probe ''b''] [] 26) - 1)"
    by simp
  then show ?thesis using nf by (simp add: p format_probe)
qed

section \<open>The fallback context\<close>

lemma sample_fields_nonempty:
  "list_all (\<lambda>c. get_str (key_subtopic c) \<noteq> [] \<and> get_str (key_chapter c) \<noteq> []
                 \<and> get_str (key_chunk c) \<noteq> []) sample_chunks"
  by (simp add: sample_chunks_def sample_defs get_str_def asc_Nil_iff)

lemma sample_none_passes: "filter (passes U []) sample_chunks = []"
proof -
  have "\<not> passes U [] c" if "c \<in> set sample_chunks" for c
  proof -
    have "get_str (key_subtopic c) \<noteq> [] \<and> get_str (key_chapter c) \<noteq> [] \<and> get_str (key_chunk c) \<noteq> []"
      using that sample_fields_nonempty by (simp add: list_all_iff)
    then have "total_score U (str_lower U []) c = 0" by (simp add: total_score_fields_nonempty)
    then show ?thesis by (simp add: passes_def fl_floor_pos)
  qed
  then show ?thesis by (simp add: filter_empty_conv)
qed

lemma sample_empty_query: "search_relevant_chunks U sample_chunks [] 3 = []"
  by (simp add: search_eq ranked_chunks_def sample_none_passes slice_to_def)

text \<open>
  C5. Whenever \<open>search_relevant_chunks\<close> returns no chunk, \<open>get_context_for_query\<close> returns the
  fixed fallback string, which is not empty. This is so on the empty corpus, and for the empty
  query on the built-in corpus, where every chunk scores 0.
\<close>

theorem get_context_fallback_when_empty:
  "(search_relevant_chunks U kb query 3 = [] \<longrightarrow>
      get_context_for_query U kb query ml = fallback_context)
   \<and> search_relevant_chunks U [] query 3 = []
   \<and> get_context_for_query U [] query ml = fallback_context
   \<and> search_relevant_chunks U sample_chunks [] 3 = []
   \<and> get_context_for_query U sample_chunks [] ml = fallback_context
   \<and> fallback_context \<noteq> []"
proof -
  have 1: "search_relevant_chunks U kb query 3 = [] \<longrightarrow>
      get_context_for_query U kb query ml = fallback_context"
    by (simp add: get_context_fallback)
  have 2: "search_relevant_chunks U [] query 3 = []" by (simp add: search_relevant_chunks_def)
  have 3: "get_context_for_query U [] query ml = fallback_context"
    using 2 by (rule get_context_fallback)
  have 4: "get_context_for_query U sample_chunks [] ml = fallback_context"
    using sample_empty_query by (rule get_context_fallback)
  have 5: "fallback_context \<noteq> []" by (simp add: fallback_context_def asc_Nil_iff)
  from 1 2 3 4 5 sample_empty_query show ?thesis by blast
qed

theorem get_context_fallback_when_empty_witness:
  "search_relevant_chunks ascii_only
      [\<lparr>key_chunk = Some (asc ''x''), key_subtopic = Some (asc ''s''), key_chapter = Some (asc ''c'')\<rparr>] [] 3 = []
   \<and> get_context_for_query ascii_only
      [\<lparr>key_chunk = Some (asc ''x''), key_subtopic = Some (asc ''s''), key_chapter = Some (asc ''c'')\<rparr>] [] 1200
       = fallback_context"
proof -
  let ?c = "\<lparr>key_chunk = Some (asc ''x''), key_subtopic = Some (asc ''s''), key_chapter = Some (asc ''c'')\<rparr>"
  have "total_score ascii_only (str_lower ascii_only []) ?c = 0"
    by (rule total_score_fields_nonempty) (simp_all add: get_str_def asc_Nil_iff)
  then have e: "search_relevant_chunks ascii_only [?c] [] 3 = []"
    by (simp add: search_eq ranked_chunks_def passes_def fl_floor_pos slice_to_def)
  then show ?thesis
    using get_context_fallback_when_empty [of ascii_only "[?c]" "[]" 1200] by blast
qed

section \<open>Loading: verification\<close>
















end
